theory Spec2Isabelle
  imports Complex_Main "HOL-Library.Multiset"
begin

section \<open>Town Runner: the scene, its actors and their rigid bodies\<close>

text \<open>
  The C++ sources keep every actor and every rigid body behind a pointer. The model keeps
  an explicit store for each kind of object and names objects by their address. The
  coordinates of actors and rigid bodies are \<^typ>\<open>real\<close> numbers: the scene code only copies
  them. The light simulation computes on \<^verbatim>\<open>float\<close>: its numbers are binary32 numbers, and
  every operation rounds as IEEE 754 has it.
  The scene is the one after \<^verbatim>\<open>TestScene::Initialize\<close>: the physics wrapper, the camera and
  the environment map exist.
\<close>

subsection \<open>Data\<close>

type_synonym addr = nat

text \<open>What goes wrong in C++ (undefined behaviour) is a value of the model.\<close>

datatype error = NullPointer | DanglingPointer | EmptyVector | IndexOutOfRange

text \<open>\<^verbatim>\<open>Diligent::float3\<close> and \<^verbatim>\<open>reactphysics3d::Vector3\<close>: three coordinates each.\<close>

record float3 =
  fx :: real
  fy :: real
  fz :: real

record Vector3 =
  vx :: real
  vy :: real
  vz :: real

record Quaternion =
  qx :: real
  qy :: real
  qz :: real
  qw :: real

text \<open>\<^verbatim>\<open>reactphysics3d::Transform\<close>: a position and an orientation.\<close>

record Transform =
  position :: Vector3
  orientation :: Quaternion

datatype ActorState = Active | Dead

text \<open>
  \<^verbatim>\<open>RigidbodyComponent\<close>: the owner actor, the update order of the \<^verbatim>\<open>Component\<close> base and
  the handle \<^verbatim>\<open>_rigidBody\<close>, which is \<^verbatim>\<open>nullptr\<close> (\<open>None\<close>) or the address of a body of the
  physics world.
\<close>

record RigidbodyComponent =
  owner :: addr
  updateOrder :: int
  rigidBody :: "addr option"

text \<open>
  The components an actor owns. The repository holds two versions of
  \<^verbatim>\<open>RigidbodyComponent::update\<close>; the constructor of the datatype says which one the
  virtual call reaches. \<^verbatim>\<open>CollisionComponent::update\<close> has an empty body, so that none of
  its fields is needed.
\<close>

datatype Component =
    RigidbodyTownRunner RigidbodyComponent
  | RigidbodyPart004 RigidbodyComponent
  | Collision

text \<open>
  Modelled from the spec: the class \<^verbatim>\<open>Actor\<close>, whose header (Actor.h) is not among the
  sources. The spec gives an actor a position, a rotation, a state (Active or Dead) and an
  ordered collection of owned components; \<^verbatim>\<open>GetActorName\<close> returns its name, and
  \<^verbatim>\<open>getPosition\<close>, \<^verbatim>\<open>setPosition\<close>, \<^verbatim>\<open>getState\<close> and \<^verbatim>\<open>setState\<close> read and write the
  fields.
\<close>

record Actor =
  actorName :: string
  actorPosition :: float3
  actorRotation :: Quaternion
  actorState :: ActorState
  components :: "Component list"

text \<open>The physics world: its rigid bodies, each with its transform, and the next free address.\<close>

record PhysicsWorld =
  bodies :: "addr \<rightharpoonup> Transform"
  nextBody :: addr

text \<open>The log, one for the program: the messages added and the number of times it was drawn.\<close>

record Log =
  infos :: "string list"
  draws :: nat

text \<open>The calls \<^verbatim>\<open>TestScene\<close> makes on other objects, in the order it makes them.\<close>

datatype event =
    SampleBaseUpdate
  | ReactPhysicUpdate
  | CameraUpdate
  | ActorUpdate addr
  | SetRenderTargets
  | ClearRenderTarget
  | ClearDepthStencil
  | EnvMapRender
  | RenderActor addr

text \<open>
  The program state: the vector \<^verbatim>\<open>TestScene::actors\<close> of actor pointers, the store of the
  actor objects, the physics world, the log and the calls made so far.
\<close>

record state =
  actors :: "addr list"
  heap :: "addr \<rightharpoonup> Actor"
  world :: PhysicsWorld
  sceneLog :: Log
  calls :: "event list"

subsection \<open>TestScene::removeActor\<close>

text \<open>\<^verbatim>\<open>std::find\<close>: the index of the first occurrence, the length of the list when there is none.\<close>

fun std_find :: "'a list \<Rightarrow> 'a \<Rightarrow> nat" where
  "std_find [] a = 0"
| "std_find (b # bs) a = (if b = a then 0 else Suc (std_find bs a))"

text \<open>\<^verbatim>\<open>std::iter_swap\<close> on two valid positions.\<close>

definition iter_swap :: "nat \<Rightarrow> nat \<Rightarrow> 'a list \<Rightarrow> 'a list" where
  "iter_swap i j bs = bs[i := bs ! j, j := bs ! i]"

definition removeActor :: "addr \<Rightarrow> state \<Rightarrow> state" where
  "removeActor actor s =
     (let iter = std_find (actors s) actor in
      if iter \<noteq> length (actors s)
      then s\<lparr>actors := butlast (iter_swap iter (length (actors s) - 1) (actors s))\<rparr>
      else s)"

subsection \<open>RigidbodyComponent\<close>

text \<open>
  The constructors \<^verbatim>\<open>RigidbodyComponent(Actor* ownerP)\<close> and
  \<^verbatim>\<open>RigidbodyComponent(Actor* ownerP, int updateOrder)\<close>. \<^verbatim>\<open>Component(ownerP)\<close> leaves the update order to the default of the
  base class, which is declared in a header that is not among the sources: it is the
  parameter \<open>dflt\<close>.
\<close>

definition RigidbodyComponent_owner :: "int \<Rightarrow> addr \<Rightarrow> RigidbodyComponent" where
  "RigidbodyComponent_owner dflt ownerP =
     \<lparr>owner = ownerP, updateOrder = dflt, rigidBody = None\<rparr>"

definition RigidbodyComponent_owner_order :: "addr \<Rightarrow> int \<Rightarrow> RigidbodyComponent" where
  "RigidbodyComponent_owner_order ownerP order =
     \<lparr>owner = ownerP, updateOrder = order, rigidBody = None\<rparr>"

text \<open>
  \<^verbatim>\<open>PhysicsWorld::createRigidBody\<close> belongs to the physics library: it adds a body with the
  given transform to the world and returns its address.
\<close>

definition createRigidBody :: "Transform \<Rightarrow> PhysicsWorld \<Rightarrow> addr \<times> PhysicsWorld" where
  "createRigidBody transform w =
     (nextBody w, w\<lparr>bodies := (bodies w)(nextBody w \<mapsto> transform), nextBody := Suc (nextBody w)\<rparr>)"

text \<open>
  The constructors \<^verbatim>\<open>RigidbodyComponent(Actor* ownerP, Transform transform, PhysicsWorld* _world)\<close>
  and the one with a further \<^verbatim>\<open>int updateOrder\<close>. The world is passed as a pointer: \<open>None\<close>
  is \<^verbatim>\<open>nullptr\<close>.
\<close>

definition RigidbodyComponent_world ::
  "int \<Rightarrow> addr \<Rightarrow> Transform \<Rightarrow> PhysicsWorld option \<Rightarrow> error + RigidbodyComponent \<times> PhysicsWorld" where
  "RigidbodyComponent_world dflt ownerP transform wp =
     (case wp of
        None \<Rightarrow> Inl NullPointer
      | Some w \<Rightarrow>
          (let (r, w') = createRigidBody transform w
           in Inr (\<lparr>owner = ownerP, updateOrder = dflt, rigidBody = Some r\<rparr>, w')))"

definition RigidbodyComponent_world_order ::
  "addr \<Rightarrow> Transform \<Rightarrow> PhysicsWorld option \<Rightarrow> int \<Rightarrow> error + RigidbodyComponent \<times> PhysicsWorld" where
  "RigidbodyComponent_world_order ownerP transform wp order =
     (case wp of
        None \<Rightarrow> Inl NullPointer
      | Some w \<Rightarrow>
          (let (r, w') = createRigidBody transform w
           in Inr (\<lparr>owner = ownerP, updateOrder = order, rigidBody = Some r\<rparr>, w')))"

text \<open>
  \<^verbatim>\<open>RigidbodyComponent::update\<close> of src/Projects/TownRunner: the position of the rigid body
  goes into the owner actor, and a message goes into the log, which is drawn.
  \<^verbatim>\<open>std::to_string\<close> is the parameter \<open>to_string\<close>.
\<close>

definition RigidbodyComponent_update_TownRunner ::
  "(real \<Rightarrow> string) \<Rightarrow> RigidbodyComponent \<Rightarrow> state \<Rightarrow> error + state" where
  "RigidbodyComponent_update_TownRunner to_string c s =
     (case rigidBody c of
        None \<Rightarrow> Inl NullPointer
      | Some r \<Rightarrow>
          (case bodies (world s) r of
             None \<Rightarrow> Inl DanglingPointer
           | Some t \<Rightarrow>
               (let rbPosV3 = position t;
                    rbPosF3 = \<lparr>fx = vx rbPosV3, fy = vy rbPosV3, fz = vz rbPosV3\<rparr>
                in case heap s (owner c) of
                     None \<Rightarrow> Inl DanglingPointer
                   | Some a \<Rightarrow>
                       (let message = ''Actor name : '' @ actorName a
                              @ '' ,x = '' @ to_string (vx rbPosV3)
                              @ '' ,y = '' @ to_string (vy rbPosV3)
                              @ '' ,z = '' @ to_string (vz rbPosV3)
                        in Inr (s\<lparr>heap := (heap s)(owner c \<mapsto> a\<lparr>actorPosition := rbPosF3\<rparr>),
                                  sceneLog := \<lparr>infos = infos (sceneLog s) @ [message],
                                               draws = Suc (draws (sceneLog s))\<rparr>\<rparr>)))))"

text \<open>
  \<^verbatim>\<open>RigidbodyComponent::update\<close> of src/unnamed/part_004: the position of the owner actor
  goes into the transform of the rigid body.
\<close>

definition RigidbodyComponent_update_part004 :: "RigidbodyComponent \<Rightarrow> state \<Rightarrow> error + state" where
  "RigidbodyComponent_update_part004 c s =
     (case rigidBody c of
        None \<Rightarrow> Inl NullPointer
      | Some r \<Rightarrow>
          (case bodies (world s) r of
             None \<Rightarrow> Inl DanglingPointer
           | Some rbTrans \<Rightarrow>
               (case heap s (owner c) of
                  None \<Rightarrow> Inl DanglingPointer
                | Some a \<Rightarrow>
                    (let pos = actorPosition a;
                         rbTrans' = rbTrans\<lparr>position := \<lparr>vx = fx pos, vy = fy pos, vz = fz pos\<rparr>\<rparr>
                     in Inr (s\<lparr>world := (world s)\<lparr>bodies := (bodies (world s))(r \<mapsto> rbTrans')\<rparr>\<rparr>)))))"

subsection \<open>Actor\<close>

text \<open>The virtual call \<^verbatim>\<open>component->update(CurrTime, ElapsedTime)\<close>.\<close>

fun Component_update :: "(real \<Rightarrow> string) \<Rightarrow> Component \<Rightarrow> state \<Rightarrow> error + state" where
  "Component_update to_string (RigidbodyTownRunner c) s = RigidbodyComponent_update_TownRunner to_string c s"
| "Component_update to_string (RigidbodyPart004 c) s = RigidbodyComponent_update_part004 c s"
| "Component_update to_string Collision s = Inr s"

fun updateComponents :: "(real \<Rightarrow> string) \<Rightarrow> Component list \<Rightarrow> state \<Rightarrow> error + state" where
  "updateComponents to_string [] s = Inr s"
| "updateComponents to_string (c # cs) s =
     (case Component_update to_string c s of
        Inl e \<Rightarrow> Inl e
      | Inr s' \<Rightarrow> updateComponents to_string cs s')"

text \<open>
  Modelled from the spec: \<^verbatim>\<open>Actor::Update\<close>, whose file (Actor.cpp) is not among the
  sources. The spec: an Actor owns zero or more Components, and each Component's update is
  invoked once per frame by its owning Actor.
\<close>

definition Actor_Update :: "(real \<Rightarrow> string) \<Rightarrow> addr \<Rightarrow> state \<Rightarrow> error + state" where
  "Actor_Update to_string actor s =
     (case heap s actor of
        None \<Rightarrow> Inl DanglingPointer
      | Some a \<Rightarrow> updateComponents to_string (components a) s)"

subsection \<open>TestScene::Update and TestScene::Render\<close>

text \<open>The loop \<^verbatim>\<open>for (auto actor : actors) actor->Update(CurrTime, ElapsedTime);\<close>\<close>

fun updateActors :: "(real \<Rightarrow> string) \<Rightarrow> addr list \<Rightarrow> state \<Rightarrow> error + state" where
  "updateActors to_string [] s = Inr s"
| "updateActors to_string (actor # rest) s =
     (case Actor_Update to_string actor (s\<lparr>calls := calls s @ [ActorUpdate actor]\<rparr>) of
        Inl e \<Rightarrow> Inl e
      | Inr s' \<Rightarrow> updateActors to_string rest s')"

text \<open>\<^verbatim>\<open>actors.back()->setState(Actor::ActorState::Dead)\<close>\<close>

definition killBack :: "state \<Rightarrow> error + state" where
  "killBack s =
     (if actors s = [] then Inl EmptyVector
      else (case heap s (last (actors s)) of
              None \<Rightarrow> Inl DanglingPointer
            | Some a \<Rightarrow> Inr (s\<lparr>heap := (heap s)(last (actors s) \<mapsto> a\<lparr>actorState := Dead\<rparr>)\<rparr>)))"

text \<open>The loop that fills the local vector \<^verbatim>\<open>deadActors\<close>.\<close>

fun collectDead :: "addr list \<Rightarrow> (addr \<rightharpoonup> Actor) \<Rightarrow> addr list \<Rightarrow> error + addr list" where
  "collectDead [] h deadActors = Inr deadActors"
| "collectDead (actor # rest) h deadActors =
     (case h actor of
        None \<Rightarrow> Inl DanglingPointer
      | Some a \<Rightarrow>
          collectDead rest h (if actorState a = Dead then deadActors @ [actor] else deadActors))"

text \<open>The loop \<^verbatim>\<open>for (auto deadActor : deadActors) { }\<close>: its body is empty.\<close>

fun forEachDead :: "addr list \<Rightarrow> state \<Rightarrow> state" where
  "forEachDead [] s = s"
| "forEachDead (deadActor # rest) s = forEachDead rest s"

text \<open>
  \<^verbatim>\<open>TestScene::Update\<close>. The step of the physics library behind \<^verbatim>\<open>ReactPhysic::Update\<close> is
  the parameter \<open>physUpdate\<close>; \<open>moveBackward\<close> is what
  \<^verbatim>\<open>m_InputController.IsKeyDown(InputKeys::MoveBackward)\<close> returns in this frame.
\<close>

definition TestScene_Update ::
  "(PhysicsWorld \<Rightarrow> PhysicsWorld) \<Rightarrow> (real \<Rightarrow> string) \<Rightarrow> bool \<Rightarrow> state \<Rightarrow> error + state" where
  "TestScene_Update physUpdate to_string moveBackward s =
     (let s1 = s\<lparr>calls := calls s @ [SampleBaseUpdate]\<rparr>;
          s2 = s1\<lparr>world := physUpdate (world s1), calls := calls s1 @ [ReactPhysicUpdate]\<rparr>;
          s3 = s2\<lparr>calls := calls s2 @ [CameraUpdate]\<rparr>
      in case updateActors to_string (actors s3) s3 of
           Inl e \<Rightarrow> Inl e
         | Inr s4 \<Rightarrow>
             (case (if moveBackward then killBack s4 else Inr s4) of
                Inl e \<Rightarrow> Inl e
              | Inr s5 \<Rightarrow>
                  (case collectDead (actors s5) (heap s5) [] of
                     Inl e \<Rightarrow> Inl e
                   | Inr deadActors \<Rightarrow> Inr (forEachDead deadActors s5))))"

text \<open>The loop of \<^verbatim>\<open>TestScene::Render\<close> over the actors.\<close>

fun renderActors :: "addr list \<Rightarrow> state \<Rightarrow> error + state" where
  "renderActors [] s = Inr s"
| "renderActors (actor # rest) s =
     (case heap s actor of
        None \<Rightarrow> Inl DanglingPointer
      | Some a \<Rightarrow>
          (if actorState a = Active
           then renderActors rest (s\<lparr>calls := calls s @ [RenderActor actor]\<rparr>)
           else renderActors rest s))"

definition TestScene_Render :: "state \<Rightarrow> error + state" where
  "TestScene_Render s =
     renderActors (actors s)
       (s\<lparr>calls := calls s @ [SetRenderTargets, ClearRenderTarget, ClearDepthStencil, EnvMapRender]\<rparr>)"

text \<open>Frame after frame: the states a run of \<^verbatim>\<open>Update\<close> calls goes through, one key state per frame.\<close>

fun run ::
  "(PhysicsWorld \<Rightarrow> PhysicsWorld) \<Rightarrow> (real \<Rightarrow> string) \<Rightarrow> bool list \<Rightarrow> state \<Rightarrow> error + state list" where
  "run physUpdate to_string [] s = Inr [s]"
| "run physUpdate to_string (k # ks) s =
     (case TestScene_Update physUpdate to_string k s of
        Inl e \<Rightarrow> Inl e
      | Inr s' \<Rightarrow>
          (case run physUpdate to_string ks s' of
             Inl e \<Rightarrow> Inl e
           | Inr ss \<Rightarrow> Inr (s # ss)))"

text \<open>The state of the actor at an address, when there is one.\<close>

definition stateOf :: "addr \<Rightarrow> state \<Rightarrow> ActorState option" where
  "stateOf actor s = map_option actorState (heap s actor)"

text \<open>How often \<open>p\<close> is directly followed by \<open>q\<close> in a sequence.\<close>

fun transitions :: "'a \<Rightarrow> 'a \<Rightarrow> 'a list \<Rightarrow> nat" where
  "transitions p q (u # v # ws) = (if u = p \<and> v = q then 1 else 0) + transitions p q (v # ws)"
| "transitions p q ws = 0"

text \<open>The actors of the calls of one kind, in the order of the calls.\<close>

fun updatedActors :: "event list \<Rightarrow> addr list" where
  "updatedActors [] = []"
| "updatedActors (ActorUpdate a # es) = a # updatedActors es"
| "updatedActors (e # es) = updatedActors es"

fun renderedActors :: "event list \<Rightarrow> addr list" where
  "renderedActors [] = []"
| "renderedActors (RenderActor a # es) = a # renderedActors es"
| "renderedActors (e # es) = renderedActors es"

subsection \<open>The arithmetic of \<^verbatim>\<open>float\<close>\<close>

text \<open>
  \<^verbatim>\<open>Light::UpdateLights\<close> computes on C++ \<^verbatim>\<open>float\<close>, the binary32 format of IEEE 754:
  every operation gives the binary32 number nearest to the exact result, the one with the
  even mantissa when two are equally near, an infinity when the rounded result does not fit,
  and each operation of the source is rounded on its own. The finite binary32 numbers are
  the integer multiples \<open>m * 2^i / 2^149\<close> with \<open>\<bar>m\<bar> < 2^24\<close> and \<open>i < 254\<close>;
  \<open>spacing i\<close> is the distance between neighbours in the range \<open>i\<close>, the subnormal
  numbers and the least normal ones being the range \<open>0\<close>.
\<close>

definition spacing :: "nat \<Rightarrow> real" where
  "spacing i = 2 ^ i / 2 ^ 149"

text \<open>
  The distance between the binary32 numbers around a magnitude \<open>x\<close>: the one of the first
  range that ends above \<open>x\<close>, and the one of the last range beyond all of them.
\<close>

definition quantum :: "real \<Rightarrow> real" where
  "quantum x =
     (case find (\<lambda>i. x < 2 ^ 24 * spacing i) [0..<254] of
        Some i \<Rightarrow> spacing i
      | None \<Rightarrow> spacing 253)"

text \<open>The integer nearest to \<open>m\<close>, the even one of the two when \<open>m\<close> lies half way.\<close>

definition rhe :: "real \<Rightarrow> int" where
  "rhe m =
     (let f = \<lfloor>m\<rfloor>; r = m - of_int f
      in if r < 1 / 2 then f else if 1 / 2 < r then f + 1 else if even f then f else f + 1)"

text \<open>
  A value of type \<^verbatim>\<open>float\<close>: not a number, an infinity, or a finite number. The two zeros
  of the format are one value here: they compare equal, and no operation of
  \<^verbatim>\<open>UpdateLights\<close> tells them apart.
\<close>

datatype float32 = NaN | PInf | NInf | Finite real

text \<open>
  The rounding of an exact result to binary32: the magnitude is rounded on its quantum, and
  a rounded magnitude of \<open>2^128\<close> or more is an infinity.
\<close>

definition round32 :: "real \<Rightarrow> float32" where
  "round32 x =
     (let y = of_int (rhe (\<bar>x\<bar> / quantum \<bar>x\<bar>)) * quantum \<bar>x\<bar>
      in if 2 ^ 128 \<le> y then (if x < 0 then NInf else PInf)
         else Finite (if x < 0 then - y else y))"

text \<open>
  The operators of \<^verbatim>\<open>float\<close> that \<^verbatim>\<open>UpdateLights\<close> uses: unary \<^verbatim>\<open>-\<close>, \<^verbatim>\<open>+\<close>, binary \<^verbatim>\<open>-\<close>,
  \<^verbatim>\<open>*\<close> and \<^verbatim>\<open><\<close> (\<^verbatim>\<open>a > b\<close> is \<^verbatim>\<open>b < a\<close>), and the conversion \<^verbatim>\<open>static_cast<float>\<close> of an
  \<^verbatim>\<open>int\<close>.
\<close>

fun fneg :: "float32 \<Rightarrow> float32" where
  "fneg NaN = NaN"
| "fneg PInf = NInf"
| "fneg NInf = PInf"
| "fneg (Finite a) = Finite (- a)"

fun fadd :: "float32 \<Rightarrow> float32 \<Rightarrow> float32" where
  "fadd (Finite a) (Finite b) = round32 (a + b)"
| "fadd NaN b = NaN"
| "fadd a NaN = NaN"
| "fadd PInf NInf = NaN"
| "fadd NInf PInf = NaN"
| "fadd PInf b = PInf"
| "fadd a PInf = PInf"
| "fadd NInf b = NInf"
| "fadd a NInf = NInf"

definition fsub :: "float32 \<Rightarrow> float32 \<Rightarrow> float32" where
  "fsub a b = fadd a (fneg b)"

fun fmul :: "float32 \<Rightarrow> float32 \<Rightarrow> float32" where
  "fmul (Finite a) (Finite b) = round32 (a * b)"
| "fmul NaN b = NaN"
| "fmul a NaN = NaN"
| "fmul PInf (Finite b) = (if b = 0 then NaN else if 0 < b then PInf else NInf)"
| "fmul NInf (Finite b) = (if b = 0 then NaN else if 0 < b then NInf else PInf)"
| "fmul (Finite a) PInf = (if a = 0 then NaN else if 0 < a then PInf else NInf)"
| "fmul (Finite a) NInf = (if a = 0 then NaN else if 0 < a then NInf else PInf)"
| "fmul PInf PInf = PInf"
| "fmul PInf NInf = NInf"
| "fmul NInf PInf = NInf"
| "fmul NInf NInf = PInf"

fun flt :: "float32 \<Rightarrow> float32 \<Rightarrow> bool" where
  "flt (Finite a) (Finite b) = (a < b)"
| "flt NaN b = False"
| "flt a NaN = False"
| "flt PInf b = False"
| "flt a NInf = False"
| "flt a PInf = True"
| "flt NInf b = True"

definition float_of_int :: "int \<Rightarrow> float32" where
  "float_of_int n = round32 (real_of_int n)"

subsection \<open>Light::UpdateLights\<close>

text \<open>
  A \<^verbatim>\<open>float3\<close> of the light simulation, with binary32 components, the attributes of a light
  and the members of \<^verbatim>\<open>Light\<close> that \<^verbatim>\<open>UpdateLights\<close> reads and writes.
\<close>

record float3_32 =
  x32 :: float32
  y32 :: float32
  z32 :: float32

record LightAttribs =
  Location :: float3_32
  Size :: float32
  Color :: float3_32

record Light =
  m_LightsCount :: int
  m_Lights :: "LightAttribs list"
  m_LightMoveDirs :: "float3_32 list"

text \<open>The lambda \<^verbatim>\<open>ClampCoordinate\<close>: the new values of its two reference parameters.\<close>

definition ClampCoordinate :: "float32 \<Rightarrow> float32 \<Rightarrow> float32 \<Rightarrow> float32 \<Rightarrow> float32 \<times> float32" where
  "ClampCoordinate Coord Dir MinC MaxC =
     (if flt Coord MinC
      then (fadd Coord (fmul (fsub MinC Coord) (Finite 2)), fmul Dir (Finite (- 1)))
      else if flt MaxC Coord
      then (fsub Coord (fmul (fsub Coord MaxC) (Finite 2)), fmul Dir (Finite (- 1)))
      else (Coord, Dir))"

text \<open>The body of the loop for one light and its move direction.\<close>

definition updateLight :: "int \<Rightarrow> float32 \<Rightarrow> LightAttribs \<Rightarrow> float3_32 \<Rightarrow> LightAttribs \<times> float3_32" where
  "updateLight GridDim fElapsedTime Light Dir =
     (let VolumeMin = \<lparr>x32 = fneg (float_of_int GridDim), y32 = fneg (float_of_int GridDim),
                        z32 = fneg (float_of_int GridDim)\<rparr>;
          VolumeMax = \<lparr>x32 = float_of_int GridDim, y32 = float_of_int GridDim,
                        z32 = float_of_int GridDim\<rparr>;
          Loc = \<lparr>x32 = fadd (x32 (Location Light)) (fmul (x32 Dir) fElapsedTime),
                 y32 = fadd (y32 (Location Light)) (fmul (y32 Dir) fElapsedTime),
                 z32 = fadd (z32 (Location Light)) (fmul (z32 Dir) fElapsedTime)\<rparr>;
          (lx, dx) = ClampCoordinate (x32 Loc) (x32 Dir) (x32 VolumeMin) (x32 VolumeMax);
          (ly, dy) = ClampCoordinate (y32 Loc) (y32 Dir) (y32 VolumeMin) (y32 VolumeMax);
          (lz, dz) = ClampCoordinate (z32 Loc) (z32 Dir) (z32 VolumeMin) (z32 VolumeMax)
      in (Light\<lparr>Location := \<lparr>x32 = lx, y32 = ly, z32 = lz\<rparr>\<rparr>, \<lparr>x32 = dx, y32 = dy, z32 = dz\<rparr>))"

text \<open>
  The loop \<^verbatim>\<open>for (int light = 0; light < m_LightsCount; ++light)\<close>, from the index \<open>light\<close>
  on. \<^verbatim>\<open>GridDim\<close> is a constant declared in a header that is not among the sources: it is
  a parameter.
\<close>

function UpdateLights_from :: "int \<Rightarrow> float32 \<Rightarrow> int \<Rightarrow> Light \<Rightarrow> error + Light" where
  "UpdateLights_from GridDim fElapsedTime light L =
     (if light < m_LightsCount L
      then (if light < 0 \<or> nat light \<ge> length (m_Lights L) \<or> nat light \<ge> length (m_LightMoveDirs L)
            then Inl IndexOutOfRange
            else (let (Light', Dir') = updateLight GridDim fElapsedTime
                                         (m_Lights L ! nat light) (m_LightMoveDirs L ! nat light)
                  in UpdateLights_from GridDim fElapsedTime (light + 1)
                       (L\<lparr>m_Lights := (m_Lights L)[nat light := Light'],
                          m_LightMoveDirs := (m_LightMoveDirs L)[nat light := Dir']\<rparr>)))
      else Inr L)"
  by pat_completeness auto
termination
  by (relation "measure (\<lambda>(GridDim, fElapsedTime, light, L). nat (m_LightsCount L - light))") auto

declare UpdateLights_from.simps [simp del]

definition UpdateLights :: "int \<Rightarrow> float32 \<Rightarrow> Light \<Rightarrow> error + Light" where
  "UpdateLights GridDim fElapsedTime L = UpdateLights_from GridDim fElapsedTime 0 L"

subsection \<open>What the properties observe\<close>

text \<open>The two inline conversions between the vector types of the engine and of the physics library.\<close>

definition toFloat3 :: "Vector3 \<Rightarrow> float3" where
  "toFloat3 v = \<lparr>fx = vx v, fy = vy v, fz = vz v\<rparr>"

definition toVector3 :: "float3 \<Rightarrow> Vector3" where
  "toVector3 p = \<lparr>vx = fx p, vy = fy p, vz = fz p\<rparr>"

definition positionOfActor :: "addr \<Rightarrow> state \<Rightarrow> float3 option" where
  "positionOfActor actor s = map_option actorPosition (heap s actor)"

definition positionOfBody :: "addr \<Rightarrow> state \<Rightarrow> Vector3 option" where
  "positionOfBody r s = map_option position (bodies (world s) r)"

definition orientationOfBody :: "addr \<Rightarrow> state \<Rightarrow> Quaternion option" where
  "orientationOfBody r s = map_option orientation (bodies (world s) r)"

text \<open>The actor and the rigid body are both there and at the same position.\<close>

definition synchronised :: "addr \<Rightarrow> addr \<Rightarrow> state \<Rightarrow> bool" where
  "synchronised actor r s =
     (case (heap s actor, bodies (world s) r) of
        (Some a, Some t) \<Rightarrow> actorPosition a = toFloat3 (position t)
      | _ \<Rightarrow> False)"

text \<open>
  A scene in which the frame functions meet no null and no dangling pointer: every actor of
  the list is live, and behind the handle of each of its rigid body components there is a
  live rigid body, and the owner of the component is live.
\<close>

fun componentOK :: "state \<Rightarrow> Component \<Rightarrow> bool" where
  "componentOK s (RigidbodyTownRunner c) =
     (case rigidBody c of
        None \<Rightarrow> False
      | Some r \<Rightarrow> bodies (world s) r \<noteq> None \<and> heap s (owner c) \<noteq> None)"
| "componentOK s (RigidbodyPart004 c) =
     (case rigidBody c of
        None \<Rightarrow> False
      | Some r \<Rightarrow> bodies (world s) r \<noteq> None \<and> heap s (owner c) \<noteq> None)"
| "componentOK s Collision = True"

definition actorOK :: "state \<Rightarrow> addr \<Rightarrow> bool" where
  "actorOK s actor =
     (case heap s actor of
        None \<Rightarrow> False
      | Some a \<Rightarrow> list_all (componentOK s) (components a))"

definition sceneOK :: "state \<Rightarrow> bool" where
  "sceneOK s = list_all (actorOK s) (actors s)"

text \<open>A physics step that neither creates nor destroys a rigid body.\<close>

definition keepsBodies :: "(PhysicsWorld \<Rightarrow> PhysicsWorld) \<Rightarrow> bool" where
  "keepsBodies physUpdate = (\<forall>w r. (bodies (physUpdate w) r = None) = (bodies w r = None))"

text \<open>The same live actors with the same components, and the same live rigid bodies.\<close>

definition sameShape :: "state \<Rightarrow> state \<Rightarrow> bool" where
  "sameShape s s' =
     ((\<forall>a. map_option components (heap s' a) = map_option components (heap s a))
      \<and> (\<forall>r. (bodies (world s') r = None) = (bodies (world s) r = None)))"

text \<open>
  A real number that is a binary32 number, a \<^verbatim>\<open>float\<close> that holds one (every value a C++
  \<^verbatim>\<open>float\<close> can hold does), and the rounded magnitude that \<open>round32\<close> computes.
\<close>

definition representable :: "real \<Rightarrow> bool" where
  "representable r = (round32 r = Finite r)"

definition binary32 :: "float32 \<Rightarrow> bool" where
  "binary32 c = (case c of Finite r \<Rightarrow> representable r | _ \<Rightarrow> True)"

definition binary32_3 :: "float3_32 \<Rightarrow> bool" where
  "binary32_3 p = (binary32 (x32 p) \<and> binary32 (y32 p) \<and> binary32 (z32 p))"

definition roundmag :: "real \<Rightarrow> real" where
  "roundmag x = of_int (rhe (x / quantum x)) * quantum x"

text \<open>
  A coordinate that is a finite number of magnitude \<open>bound\<close> at most, and a point of the
  bounding volume \<open>[-GridDim, +GridDim]^3\<close>.
\<close>

definition withinBound :: "real \<Rightarrow> float32 \<Rightarrow> bool" where
  "withinBound bound c = (case c of Finite r \<Rightarrow> \<bar>r\<bar> \<le> bound | _ \<Rightarrow> False)"

definition inVolume :: "int \<Rightarrow> float3_32 \<Rightarrow> bool" where
  "inVolume GridDim p =
     (withinBound (real_of_int GridDim) (x32 p) \<and> withinBound (real_of_int GridDim) (y32 p)
      \<and> withinBound (real_of_int GridDim) (z32 p))"

text \<open>
  The place a light reaches before the clamping, as \<^verbatim>\<open>Light.Location += Dir * fElapsedTime\<close>
  computes it; a place no further than three times the grid dimension from the origin in
  any coordinate; a coordinate beyond a face of the volume; and the reflection of a
  coordinate at the face it is beyond, as the \<^verbatim>\<open>float\<close> operations compute it.
\<close>

definition movedLocation :: "float32 \<Rightarrow> LightAttribs \<Rightarrow> float3_32 \<Rightarrow> float3_32" where
  "movedLocation fElapsedTime Light Dir =
     \<lparr>x32 = fadd (x32 (Location Light)) (fmul (x32 Dir) fElapsedTime),
      y32 = fadd (y32 (Location Light)) (fmul (y32 Dir) fElapsedTime),
      z32 = fadd (z32 (Location Light)) (fmul (z32 Dir) fElapsedTime)\<rparr>"

definition withinReach :: "int \<Rightarrow> float3_32 \<Rightarrow> bool" where
  "withinReach GridDim p =
     (withinBound (3 * real_of_int GridDim) (x32 p) \<and> withinBound (3 * real_of_int GridDim) (y32 p)
      \<and> withinBound (3 * real_of_int GridDim) (z32 p))"

definition crossed :: "int \<Rightarrow> float32 \<Rightarrow> bool" where
  "crossed GridDim c =
     (flt c (Finite (- real_of_int GridDim)) \<or> flt (Finite (real_of_int GridDim)) c)"

definition reflected :: "int \<Rightarrow> float32 \<Rightarrow> float32" where
  "reflected GridDim c =
     (if flt c (Finite (- real_of_int GridDim))
      then fadd c (fmul (fsub (Finite (- real_of_int GridDim)) c) (Finite 2))
      else if flt (Finite (real_of_int GridDim)) c
      then fsub c (fmul (fsub c (Finite (real_of_int GridDim))) (Finite 2))
      else c)"

subsection \<open>Example scenes\<close>

text \<open>
  A scene like the one \<^verbatim>\<open>TestScene::ActorCreation\<close> builds: a helmet with a rigid body
  created at the origin and a second actor without components, both at the origin.
\<close>

definition identityTransform :: Transform where
  "identityTransform =
     \<lparr>position = \<lparr>vx = 0, vy = 0, vz = 0\<rparr>, orientation = \<lparr>qx = 0, qy = 0, qz = 0, qw = 1\<rparr>\<rparr>"

definition helmet1 :: Actor where
  "helmet1 =
     \<lparr>actorName = ''Helmet'', actorPosition = \<lparr>fx = 0, fy = 0, fz = 0\<rparr>,
      actorRotation = \<lparr>qx = 0, qy = 0, qz = 0, qw = 1\<rparr>, actorState = Active,
      components = [RigidbodyPart004 \<lparr>owner = 0, updateOrder = 100, rigidBody = Some 0\<rparr>]\<rparr>"

definition animPeople1 :: Actor where
  "animPeople1 =
     \<lparr>actorName = ''AnimPeople'', actorPosition = \<lparr>fx = 0, fy = 0, fz = 0\<rparr>,
      actorRotation = \<lparr>qx = 0, qy = 0, qz = 0, qw = 1\<rparr>, actorState = Active,
      components = []\<rparr>"

definition scene2 :: state where
  "scene2 =
     \<lparr>actors = [0, 1], heap = [0 \<mapsto> helmet1, 1 \<mapsto> animPeople1],
      world = \<lparr>bodies = [0 \<mapsto> identityTransform], nextBody = 1\<rparr>,
      sceneLog = \<lparr>infos = [], draws = 0\<rparr>, calls = []\<rparr>"

text \<open>The same scene with a third actor.\<close>

definition scene3 :: state where
  "scene3 = scene2\<lparr>actors := [0, 1, 2], heap := (heap scene2)(2 \<mapsto> animPeople1)\<rparr>"

text \<open>The rigid body component of the helmet, and the scene after the helmet has moved.\<close>

definition helmetRigidbody :: RigidbodyComponent where
  "helmetRigidbody = \<lparr>owner = 0, updateOrder = 100, rigidBody = Some 0\<rparr>"

definition sceneMoved :: state where
  "sceneMoved = scene2\<lparr>heap := (heap scene2)(0 \<mapsto> helmet1\<lparr>actorPosition := \<lparr>fx = 1, fy = 2, fz = 3\<rparr>\<rparr>)\<rparr>"

text \<open>A stand-in for \<^verbatim>\<open>std::to_string\<close> in the examples.\<close>

definition plain_to_string :: "real \<Rightarrow> string" where
  "plain_to_string v = (if v = 0 then ''0.000000'' else ''?'')"

text \<open>The scene after a frame with the key MoveBackward down: the second actor is dead.\<close>

definition sceneKilled :: state where
  "sceneKilled =
     scene2\<lparr>heap := (heap scene2)(1 \<mapsto> animPeople1\<lparr>actorState := Dead\<rparr>),
            calls := [SampleBaseUpdate, ReactPhysicUpdate, CameraUpdate, ActorUpdate 0, ActorUpdate 1]\<rparr>"

text \<open>
  One light on the face \<open>x = 7\<close> of the volume of a grid of dimension 7, moving outwards
  by half a unit per second.
\<close>

definition lights1 :: Light where
  "lights1 =
     \<lparr>m_LightsCount = 1,
      m_Lights = [\<lparr>Location = \<lparr>x32 = Finite 7, y32 = Finite 0, z32 = Finite 0\<rparr>, Size = Finite 1,
                   Color = \<lparr>x32 = Finite 1, y32 = Finite 1, z32 = Finite 1\<rparr>\<rparr>],
      m_LightMoveDirs = [\<lparr>x32 = Finite (1 / 2), y32 = Finite 0, z32 = Finite 0\<rparr>]\<rparr>"

text \<open>
  One light at \<open>x = 2^24\<close>, where the binary32 numbers are two apart, moving by one unit
  per second; and one light at the origin moving by \<open>2^127\<close> units per second.
\<close>

definition lightsFar :: Light where
  "lightsFar =
     \<lparr>m_LightsCount = 1,
      m_Lights = [\<lparr>Location = \<lparr>x32 = Finite 16777216, y32 = Finite 0, z32 = Finite 0\<rparr>, Size = Finite 1,
                   Color = \<lparr>x32 = Finite 1, y32 = Finite 1, z32 = Finite 1\<rparr>\<rparr>],
      m_LightMoveDirs = [\<lparr>x32 = Finite 1, y32 = Finite 0, z32 = Finite 0\<rparr>]\<rparr>"

definition lightsFast :: Light where
  "lightsFast =
     \<lparr>m_LightsCount = 1,
      m_Lights = [\<lparr>Location = \<lparr>x32 = Finite 0, y32 = Finite 0, z32 = Finite 0\<rparr>, Size = Finite 1,
                   Color = \<lparr>x32 = Finite 1, y32 = Finite 1, z32 = Finite 1\<rparr>\<rparr>],
      m_LightMoveDirs = [\<lparr>x32 = Finite (2 ^ 127), y32 = Finite 0, z32 = Finite 0\<rparr>]\<rparr>"

section \<open>Properties\<close>

subsection \<open>Facts about removeActor\<close>

lemma std_find_absent: "a \<notin> set bs \<Longrightarrow> std_find bs a = length bs"
  by (induction bs) auto

lemma std_find_present: "a \<in> set bs \<Longrightarrow> std_find bs a < length bs \<and> bs ! std_find bs a = a"
  by (induction bs) auto

lemma std_find_append: "a \<notin> set bs \<Longrightarrow> std_find (bs @ a # cs) a = length bs"
  by (induction bs) auto

lemma swap_pop_last: "butlast (iter_swap (length bs) (length bs) (bs @ [a])) = bs"
  by (simp add: iter_swap_def)

lemma swap_pop_inner:
  "butlast (iter_swap (length bs) (length bs + length cs + 1) (bs @ a # cs @ [l])) = bs @ l # cs"
proof -
  have nth_l: "(bs @ a # cs @ [l]) ! (length bs + length cs + 1) = l"
    by (simp add: nth_append)
  have nth_a: "(bs @ a # cs @ [l]) ! length bs = a"
    by simp
  have upd1: "(bs @ a # cs @ [l])[length bs := l] = bs @ l # cs @ [l]"
    by simp
  have upd2: "(bs @ l # cs @ [l])[length bs + length cs + 1 := a] = bs @ l # cs @ [a]"
    by (simp add: list_update_append)
  have "iter_swap (length bs) (length bs + length cs + 1) (bs @ a # cs @ [l]) = bs @ l # cs @ [a]"
    unfolding iter_swap_def nth_l nth_a upd1 upd2 ..
  moreover have "butlast (bs @ l # cs @ [a]) = bs @ l # cs"
    by (simp add: butlast_append)
  ultimately show ?thesis by simp
qed

text \<open>The list after the removal of a present actor, on a list split at its first occurrence.\<close>

lemma removeActor_split:
  assumes "a \<notin> set bs"
  shows "actors (removeActor a (s\<lparr>actors := bs @ a # cs\<rparr>)) =
           (if cs = [] then bs else bs @ last cs # butlast cs)"
proof (cases cs rule: rev_cases)
  case Nil
  then show ?thesis
    using assms swap_pop_last [of bs a]
    by (simp add: removeActor_def Let_def std_find_append)
next
  case (snoc ds l)
  then show ?thesis
    using assms swap_pop_inner [of bs ds a l]
    by (simp add: removeActor_def Let_def std_find_append)
qed

lemma mset_last_butlast: "cs \<noteq> [] \<Longrightarrow> mset (last cs # butlast cs) = mset cs"
  by (induction cs rule: rev_induct) simp_all

lemma removeActor_actors_present:
  assumes "a \<in> set (actors s)"
  shows "mset (actors (removeActor a s)) = mset (actors s) - {#a#}"
proof -
  from assms obtain bs cs where split: "actors s = bs @ a # cs" and first: "a \<notin> set bs"
    by (meson split_list_first)
  have s: "s = s\<lparr>actors := bs @ a # cs\<rparr>" using split by simp
  have "actors (removeActor a s) = (if cs = [] then bs else bs @ last cs # butlast cs)"
    using removeActor_split [OF first, where s = s and cs = cs] s by simp
  then show ?thesis using split mset_last_butlast [of cs] by auto
qed

text \<open>Found or not: what \<^verbatim>\<open>removeActor\<close> returns.\<close>

lemma removeActor_shape:
  "removeActor a s =
     (if a \<in> set (actors s)
      then s\<lparr>actors := butlast ((actors s)[std_find (actors s) a := last (actors s)])\<rparr>
      else s)"
proof (cases "a \<in> set (actors s)")
  case True
  then have lt: "std_find (actors s) a < length (actors s)" and ne: "actors s \<noteq> []"
    using std_find_present by fastforce+
  have "butlast (iter_swap (std_find (actors s) a) (length (actors s) - 1) (actors s))
      = butlast ((actors s)[std_find (actors s) a := last (actors s)])"
    using ne by (simp add: iter_swap_def butlast_list_update last_conv_nth)
  then show ?thesis using True lt by (simp add: removeActor_def Let_def)
next
  case False
  then show ?thesis by (simp add: removeActor_def Let_def std_find_absent)
qed

text \<open>
  C4. For an actor \<open>a\<close> of the actors list, \<^verbatim>\<open>removeActor(a)\<close> puts the last element into
  the place of the first occurrence of \<open>a\<close> and drops the last place: one occurrence of \<open>a\<close>
  leaves the list, every other element stays (as a multiset), the list is one shorter, and
  the store of the actor objects is the same as before, so that the removed actor is not
  freed.
\<close>

theorem removeActor_present:
  assumes "a \<in> set (actors s)"
  shows "removeActor a s =
           s\<lparr>actors := butlast ((actors s)[std_find (actors s) a := last (actors s)])\<rparr>
       \<and> mset (actors (removeActor a s)) = mset (actors s) - {#a#}
       \<and> length (actors (removeActor a s)) = length (actors s) - 1
       \<and> heap (removeActor a s) = heap s"
proof -
  have shape: "removeActor a s =
           s\<lparr>actors := butlast ((actors s)[std_find (actors s) a := last (actors s)])\<rparr>"
    using assms by (simp add: removeActor_shape)
  have "length (actors (removeActor a s)) = length (actors s) - 1"
    by (simp add: shape)
  moreover have "heap (removeActor a s) = heap s"
    by (simp add: shape)
  ultimately show ?thesis
    using shape removeActor_actors_present [OF assms] by simp
qed

theorem removeActor_present_witness:
  "(0::nat) \<in> set (actors scene3) \<and> actors (removeActor 0 scene3) = [2, 1]
     \<and> mset (actors (removeActor 0 scene3)) = mset [0, 1, 2] - {#0#}
     \<and> heap (removeActor 0 scene3) = heap scene3"
proof -
  have h: "(0::nat) \<in> set (actors scene3)" by (simp add: scene3_def)
  have a: "actors (removeActor 0 scene3) = [2, 1]"
    by (simp add: removeActor_def scene3_def iter_swap_def)
  show ?thesis using h a removeActor_present [OF h] by (simp add: scene3_def)
qed

text \<open>
  C10. For an actor \<open>a\<close> that is not in the actors list, \<^verbatim>\<open>removeActor(a)\<close> leaves the state
  as it is; and on a list in which every actor occurs at most once, a second
  \<^verbatim>\<open>removeActor(a)\<close> changes nothing.
\<close>

theorem removeActor_absent:
  "(a \<notin> set (actors s) \<longrightarrow> removeActor a s = s)
   \<and> (distinct (actors s) \<longrightarrow> removeActor a (removeActor a s) = removeActor a s)"
proof (intro conjI impI)
  assume "a \<notin> set (actors s)"
  then show "removeActor a s = s" by (simp add: removeActor_shape)
next
  assume d: "distinct (actors s)"
  show "removeActor a (removeActor a s) = removeActor a s"
  proof (cases "a \<in> set (actors s)")
    case True
    then have "mset (actors (removeActor a s)) = mset (actors s) - {#a#}"
      by (rule removeActor_actors_present)
    moreover have "count (mset (actors s)) a = 1"
      using d True by (simp add: distinct_count_atmost_1)
    ultimately have "count (mset (actors (removeActor a s))) a = 0" by simp
    then have "a \<notin> set (actors (removeActor a s))"
      by (simp add: count_eq_zero_iff)
    then show ?thesis by (simp add: removeActor_shape)
  next
    case False
    then show ?thesis by (simp add: removeActor_shape)
  qed
qed

theorem removeActor_absent_witness:
  "(5::nat) \<notin> set (actors scene3) \<and> removeActor 5 scene3 = scene3
   \<and> distinct (actors scene3) \<and> removeActor 1 (removeActor 1 scene3) = removeActor 1 scene3"
proof -
  have h: "(5::nat) \<notin> set (actors scene3)" and d: "distinct (actors scene3)"
    by (simp_all add: scene3_def)
  show ?thesis using h d removeActor_absent [of 5 scene3] removeActor_absent [of 1 scene3] by simp
qed

subsection \<open>Facts about RigidbodyComponent::update\<close>

lemma toFloat3_toVector3 [simp]: "toFloat3 (toVector3 p) = p"
  by (simp add: toFloat3_def toVector3_def)

lemma toVector3_toFloat3 [simp]: "toVector3 (toFloat3 v) = v"
  by (simp add: toFloat3_def toVector3_def)

lemma update_part004_valid:
  assumes "rigidBody c = Some r" "bodies (world s) r = Some t" "heap s (owner c) = Some a"
  shows "RigidbodyComponent_update_part004 c s =
           Inr (s\<lparr>world := (world s)\<lparr>bodies := (bodies (world s))
                  (r \<mapsto> t\<lparr>position := toVector3 (actorPosition a)\<rparr>)\<rparr>\<rparr>)"
  using assms by (simp add: RigidbodyComponent_update_part004_def toVector3_def Let_def)

lemma update_TownRunner_valid:
  assumes "rigidBody c = Some r" "bodies (world s) r = Some t" "heap s (owner c) = Some a"
  shows "RigidbodyComponent_update_TownRunner to_string c s =
           Inr (s\<lparr>heap := (heap s)(owner c \<mapsto> a\<lparr>actorPosition := toFloat3 (position t)\<rparr>),
                  sceneLog := \<lparr>infos = infos (sceneLog s) @
                                 [''Actor name : '' @ actorName a
                                    @ '' ,x = '' @ to_string (vx (position t))
                                    @ '' ,y = '' @ to_string (vy (position t))
                                    @ '' ,z = '' @ to_string (vz (position t))],
                               draws = Suc (draws (sceneLog s))\<rparr>\<rparr>)"
  using assms by (simp add: RigidbodyComponent_update_TownRunner_def toFloat3_def Let_def)

text \<open>
  C7. With a live rigid body behind the handle and a live owner, the update of
  src/unnamed/part_004 returns, the rigid body has the position of the owner actor and the
  orientation it had, and the store of the actors is the same as before, so that the owner
  keeps its position and its state. Nothing else of the state changes.
\<close>

theorem update_part004_frame:
  assumes "rigidBody c = Some r" "bodies (world s) r = Some t" "heap s (owner c) = Some a"
  shows "\<exists>s'. RigidbodyComponent_update_part004 c s = Inr s'
           \<and> positionOfBody r s' = Some (toVector3 (actorPosition a))
           \<and> orientationOfBody r s' = Some (orientation t)
           \<and> heap s' = heap s
           \<and> positionOfActor (owner c) s' = Some (actorPosition a)
           \<and> stateOf (owner c) s' = Some (actorState a)
           \<and> (\<forall>r'. r' \<noteq> r \<longrightarrow> bodies (world s') r' = bodies (world s) r')
           \<and> nextBody (world s') = nextBody (world s)
           \<and> actors s' = actors s \<and> sceneLog s' = sceneLog s \<and> calls s' = calls s"
  using assms
  by (simp add: update_part004_valid [OF assms] positionOfBody_def orientationOfBody_def
      positionOfActor_def stateOf_def)

theorem update_part004_frame_witness:
  "rigidBody helmetRigidbody = Some 0 \<and> bodies (world sceneMoved) 0 = Some identityTransform
   \<and> (\<exists>s'. RigidbodyComponent_update_part004 helmetRigidbody sceneMoved = Inr s'
           \<and> positionOfBody 0 s' = Some \<lparr>vx = 1, vy = 2, vz = 3\<rparr>
           \<and> orientationOfBody 0 s' = Some \<lparr>qx = 0, qy = 0, qz = 0, qw = 1\<rparr>
           \<and> positionOfActor 0 s' = Some \<lparr>fx = 1, fy = 2, fz = 3\<rparr>
           \<and> stateOf 0 s' = Some Active)"
proof -
  have h1: "rigidBody helmetRigidbody = Some 0" by (simp add: helmetRigidbody_def)
  have h2: "bodies (world sceneMoved) 0 = Some identityTransform"
    by (simp add: sceneMoved_def scene2_def)
  have h3: "heap sceneMoved (owner helmetRigidbody)
              = Some (helmet1\<lparr>actorPosition := \<lparr>fx = 1, fy = 2, fz = 3\<rparr>\<rparr>)"
    by (simp add: sceneMoved_def helmetRigidbody_def)
  from update_part004_frame [OF h1 h2 h3] obtain s' where
    "RigidbodyComponent_update_part004 helmetRigidbody sceneMoved = Inr s'"
    "positionOfBody 0 s' = Some (toVector3 (actorPosition (helmet1\<lparr>actorPosition := \<lparr>fx = 1, fy = 2, fz = 3\<rparr>\<rparr>)))"
    "orientationOfBody 0 s' = Some (orientation identityTransform)"
    "positionOfActor (owner helmetRigidbody) s' = Some (actorPosition (helmet1\<lparr>actorPosition := \<lparr>fx = 1, fy = 2, fz = 3\<rparr>\<rparr>))"
    "stateOf (owner helmetRigidbody) s' = Some (actorState (helmet1\<lparr>actorPosition := \<lparr>fx = 1, fy = 2, fz = 3\<rparr>\<rparr>))"
    by blast
  then show ?thesis
    using h1 h2
    by (simp add: helmetRigidbody_def identityTransform_def toVector3_def helmet1_def)
qed

text \<open>
  C2, as amended. The two versions of the update go in opposite directions. With a live
  rigid body and a live owner both return. The one of src/Projects/TownRunner gives the
  owner actor the position of the rigid body and keeps the rest of the owner (its name, its
  rotation, its state, its components) and every other actor; it adds one message to the
  log, made of the name of the owner and the three coordinates of the rigid body, and the
  log is drawn once more; it leaves the physics world, the vector of actors and the calls
  alone. The one of src/unnamed/part_004 gives the rigid body the position of the owner
  actor and keeps its orientation and every other body; it leaves the actors, the log, the
  vector of actors and the calls alone. After either of them the actor and the rigid body
  are at the same position. The two never leave the same log, and they leave the same
  actors and the same physics world exactly when the actor and the rigid body were at the
  same position before.
\<close>

theorem update_versions_opposite:
  assumes "rigidBody c = Some r" "bodies (world s) r = Some t" "heap s (owner c) = Some a"
  shows "\<exists>s1 s2.
           RigidbodyComponent_update_TownRunner to_string c s = Inr s1
         \<and> RigidbodyComponent_update_part004 c s = Inr s2
         \<and> positionOfActor (owner c) s1 = Some (toFloat3 (position t)) \<and> world s1 = world s
         \<and> positionOfBody r s2 = Some (toVector3 (actorPosition a)) \<and> heap s2 = heap s
         \<and> synchronised (owner c) r s1 \<and> synchronised (owner c) r s2
         \<and> ((heap s1 = heap s2 \<and> world s1 = world s2) = synchronised (owner c) r s)
         \<and> heap s1 = (heap s)(owner c \<mapsto> a\<lparr>actorPosition := toFloat3 (position t)\<rparr>)
         \<and> sceneLog s1 =
             \<lparr>infos = infos (sceneLog s) @
                        [''Actor name : '' @ actorName a
                           @ '' ,x = '' @ to_string (vx (position t))
                           @ '' ,y = '' @ to_string (vy (position t))
                           @ '' ,z = '' @ to_string (vz (position t))],
              draws = Suc (draws (sceneLog s))\<rparr>
         \<and> actors s1 = actors s \<and> calls s1 = calls s
         \<and> world s2 = (world s)\<lparr>bodies := (bodies (world s))
                          (r \<mapsto> t\<lparr>position := toVector3 (actorPosition a)\<rparr>)\<rparr>
         \<and> sceneLog s2 = sceneLog s \<and> actors s2 = actors s \<and> calls s2 = calls s
         \<and> sceneLog s1 \<noteq> sceneLog s2"
proof -
  define l where "l = \<lparr>infos = infos (sceneLog s) @
                        [''Actor name : '' @ actorName a
                           @ '' ,x = '' @ to_string (vx (position t))
                           @ '' ,y = '' @ to_string (vy (position t))
                           @ '' ,z = '' @ to_string (vz (position t))],
              draws = Suc (draws (sceneLog s))\<rparr>"
  define s1 where "s1 = s\<lparr>heap := (heap s)(owner c \<mapsto> a\<lparr>actorPosition := toFloat3 (position t)\<rparr>),
                           sceneLog := l\<rparr>"
  define s2 where "s2 = s\<lparr>world := (world s)\<lparr>bodies := (bodies (world s))
                  (r \<mapsto> t\<lparr>position := toVector3 (actorPosition a)\<rparr>)\<rparr>\<rparr>"
  have r1: "RigidbodyComponent_update_TownRunner to_string c s = Inr s1"
    unfolding s1_def l_def by (rule update_TownRunner_valid [OF assms])
  have r2: "RigidbodyComponent_update_part004 c s = Inr s2"
    unfolding s2_def by (rule update_part004_valid [OF assms])
  have a1: "positionOfActor (owner c) s1 = Some (toFloat3 (position t))" "world s1 = world s"
    by (simp_all add: positionOfActor_def s1_def)
  have a2: "positionOfBody r s2 = Some (toVector3 (actorPosition a))" "heap s2 = heap s"
    by (simp_all add: positionOfBody_def s2_def)
  have y1: "synchronised (owner c) r s1"
    using assms by (simp add: synchronised_def s1_def)
  have y2: "synchronised (owner c) r s2"
    using assms by (simp add: synchronised_def s2_def)
  have f1: "heap s1 = (heap s)(owner c \<mapsto> a\<lparr>actorPosition := toFloat3 (position t)\<rparr>)"
    "sceneLog s1 = l" "actors s1 = actors s" "calls s1 = calls s"
    by (simp_all add: s1_def)
  have f2: "world s2 = (world s)\<lparr>bodies := (bodies (world s))
                          (r \<mapsto> t\<lparr>position := toVector3 (actorPosition a)\<rparr>)\<rparr>"
    "sceneLog s2 = sceneLog s" "actors s2 = actors s" "calls s2 = calls s"
    by (simp_all add: s2_def)
  have heap_eq: "(heap s1 = heap s2) = (actorPosition a = toFloat3 (position t))"
  proof
    assume "heap s1 = heap s2"
    then have "heap s1 (owner c) = heap s2 (owner c)" by simp
    then have "a\<lparr>actorPosition := toFloat3 (position t)\<rparr> = a"
      using assms by (simp add: f1 a2)
    then have "actorPosition (a\<lparr>actorPosition := toFloat3 (position t)\<rparr>) = actorPosition a"
      by simp
    then show "actorPosition a = toFloat3 (position t)" by simp
  next
    assume "actorPosition a = toFloat3 (position t)"
    then have "a\<lparr>actorPosition := toFloat3 (position t)\<rparr> = a" by simp
    then show "heap s1 = heap s2" using assms by (simp add: f1 a2 fun_upd_idem)
  qed
  have world_eq: "actorPosition a = toFloat3 (position t) \<Longrightarrow> world s1 = world s2"
  proof -
    assume "actorPosition a = toFloat3 (position t)"
    then have "t\<lparr>position := toVector3 (actorPosition a)\<rparr> = t" by simp
    then show "world s1 = world s2" using assms by (simp add: a1 f2 fun_upd_idem)
  qed
  have e: "(heap s1 = heap s2 \<and> world s1 = world s2) = synchronised (owner c) r s"
    using heap_eq world_eq assms by (auto simp add: synchronised_def)
  have "draws (sceneLog s1) \<noteq> draws (sceneLog s2)" by (simp add: f1 f2 l_def)
  then have n: "sceneLog s1 \<noteq> sceneLog s2" by metis
  have l1: "sceneLog s1 =
             \<lparr>infos = infos (sceneLog s) @
                        [''Actor name : '' @ actorName a
                           @ '' ,x = '' @ to_string (vx (position t))
                           @ '' ,y = '' @ to_string (vy (position t))
                           @ '' ,z = '' @ to_string (vz (position t))],
              draws = Suc (draws (sceneLog s))\<rparr>"
    unfolding f1 l_def by (rule refl)
  show ?thesis
    using r1 r2 a1 a2 y1 y2 e f1(1,3,4) l1 f2 n by blast
qed

text \<open>
  C2, as stated, fails: with the helmet at (1, 2, 3) and its rigid body at the origin, the
  version of src/Projects/TownRunner leaves both at the origin, the version of
  src/unnamed/part_004 leaves both at (1, 2, 3).
\<close>

theorem update_versions_differ:
  "(\<exists>s1. RigidbodyComponent_update_TownRunner plain_to_string helmetRigidbody sceneMoved = Inr s1
         \<and> positionOfActor 0 s1 = Some \<lparr>fx = 0, fy = 0, fz = 0\<rparr>
         \<and> positionOfBody 0 s1 = Some \<lparr>vx = 0, vy = 0, vz = 0\<rparr>)
   \<and> (\<exists>s2. RigidbodyComponent_update_part004 helmetRigidbody sceneMoved = Inr s2
         \<and> positionOfActor 0 s2 = Some \<lparr>fx = 1, fy = 2, fz = 3\<rparr>
         \<and> positionOfBody 0 s2 = Some \<lparr>vx = 1, vy = 2, vz = 3\<rparr>)"
  by (simp add: RigidbodyComponent_update_TownRunner_def RigidbodyComponent_update_part004_def
      helmetRigidbody_def sceneMoved_def scene2_def identityTransform_def helmet1_def
      positionOfActor_def positionOfBody_def Let_def)

theorem update_versions_opposite_witness:
  "rigidBody helmetRigidbody = Some 0 \<and> bodies (world sceneMoved) 0 = Some identityTransform
   \<and> heap sceneMoved (owner helmetRigidbody)
       = Some (helmet1\<lparr>actorPosition := \<lparr>fx = 1, fy = 2, fz = 3\<rparr>\<rparr>)
   \<and> (\<exists>s1 s2. RigidbodyComponent_update_TownRunner plain_to_string helmetRigidbody sceneMoved = Inr s1
         \<and> RigidbodyComponent_update_part004 helmetRigidbody sceneMoved = Inr s2
         \<and> positionOfActor 0 s1 = Some \<lparr>fx = 0, fy = 0, fz = 0\<rparr>
         \<and> positionOfBody 0 s2 = Some \<lparr>vx = 1, vy = 2, vz = 3\<rparr>
         \<and> synchronised 0 0 s1 \<and> synchronised 0 0 s2 \<and> \<not> synchronised 0 0 sceneMoved
         \<and> \<not> (heap s1 = heap s2 \<and> world s1 = world s2)
         \<and> heap s1 0 = Some helmet1 \<and> heap s1 1 = Some animPeople1
         \<and> sceneLog s1 =
             \<lparr>infos = [''Actor name : Helmet ,x = 0.000000 ,y = 0.000000 ,z = 0.000000''],
              draws = 1\<rparr>
         \<and> actors s1 = [0, 1] \<and> calls s1 = []
         \<and> bodies (world s2) 0
             = Some \<lparr>position = \<lparr>vx = 1, vy = 2, vz = 3\<rparr>,
                     orientation = \<lparr>qx = 0, qy = 0, qz = 0, qw = 1\<rparr>\<rparr>
         \<and> sceneLog s2 = \<lparr>infos = [], draws = 0\<rparr> \<and> actors s2 = [0, 1] \<and> calls s2 = []
         \<and> sceneLog s1 \<noteq> sceneLog s2)"
proof -
  have h1: "rigidBody helmetRigidbody = Some 0" by (simp add: helmetRigidbody_def)
  have h2: "bodies (world sceneMoved) 0 = Some identityTransform"
    by (simp add: sceneMoved_def scene2_def)
  have h3: "heap sceneMoved (owner helmetRigidbody)
              = Some (helmet1\<lparr>actorPosition := \<lparr>fx = 1, fy = 2, fz = 3\<rparr>\<rparr>)"
    by (simp add: sceneMoved_def helmetRigidbody_def)
  have n: "\<not> synchronised 0 0 sceneMoved"
    by (simp add: synchronised_def sceneMoved_def scene2_def identityTransform_def toFloat3_def)
  from update_versions_opposite [OF h1 h2 h3, of plain_to_string] obtain s1 s2 where
    r: "RigidbodyComponent_update_TownRunner plain_to_string helmetRigidbody sceneMoved = Inr s1"
    "RigidbodyComponent_update_part004 helmetRigidbody sceneMoved = Inr s2"
    and p: "positionOfActor (owner helmetRigidbody) s1 = Some (toFloat3 (position identityTransform))"
    "positionOfBody 0 s2 = Some (toVector3 (actorPosition (helmet1\<lparr>actorPosition := \<lparr>fx = 1, fy = 2, fz = 3\<rparr>\<rparr>)))"
    and y: "synchronised (owner helmetRigidbody) 0 s1" "synchronised (owner helmetRigidbody) 0 s2"
    "(heap s1 = heap s2 \<and> world s1 = world s2) = synchronised (owner helmetRigidbody) 0 sceneMoved"
    and f1: "heap s1 = (heap sceneMoved)(owner helmetRigidbody \<mapsto>
               helmet1\<lparr>actorPosition := \<lparr>fx = 1, fy = 2, fz = 3\<rparr>\<rparr>
                 \<lparr>actorPosition := toFloat3 (position identityTransform)\<rparr>)"
    and l1: "sceneLog s1 =
             \<lparr>infos = infos (sceneLog sceneMoved) @
                        [''Actor name : '' @ actorName (helmet1\<lparr>actorPosition := \<lparr>fx = 1, fy = 2, fz = 3\<rparr>\<rparr>)
                           @ '' ,x = '' @ plain_to_string (vx (position identityTransform))
                           @ '' ,y = '' @ plain_to_string (vy (position identityTransform))
                           @ '' ,z = '' @ plain_to_string (vz (position identityTransform))],
              draws = Suc (draws (sceneLog sceneMoved))\<rparr>"
    and g1: "actors s1 = actors sceneMoved" "calls s1 = calls sceneMoved"
    and f2: "world s2 = (world sceneMoved)\<lparr>bodies := (bodies (world sceneMoved))
               (0 \<mapsto> identityTransform\<lparr>position :=
                  toVector3 (actorPosition (helmet1\<lparr>actorPosition := \<lparr>fx = 1, fy = 2, fz = 3\<rparr>\<rparr>))\<rparr>)\<rparr>"
    and g2: "sceneLog s2 = sceneLog sceneMoved" "actors s2 = actors sceneMoved"
    "calls s2 = calls sceneMoved"
    and d: "sceneLog s1 \<noteq> sceneLog s2"
    by blast
  have c1: "positionOfActor 0 s1 = Some \<lparr>fx = 0, fy = 0, fz = 0\<rparr>"
    using p(1) by (simp add: helmetRigidbody_def identityTransform_def toFloat3_def)
  have c2: "positionOfBody 0 s2 = Some \<lparr>vx = 1, vy = 2, vz = 3\<rparr>"
    using p(2) by (simp add: toVector3_def)
  have c3: "synchronised 0 0 s1" "synchronised 0 0 s2"
    using y(1,2) by (simp_all add: helmetRigidbody_def)
  have c4: "\<not> (heap s1 = heap s2 \<and> world s1 = world s2)"
    using y(3) n by (simp add: helmetRigidbody_def)
  have c5: "heap s1 0 = Some helmet1" "heap s1 1 = Some animPeople1"
    by (simp_all add: f1 helmetRigidbody_def sceneMoved_def scene2_def helmet1_def
        identityTransform_def toFloat3_def)
  have c6: "sceneLog s1 =
             \<lparr>infos = [''Actor name : Helmet ,x = 0.000000 ,y = 0.000000 ,z = 0.000000''],
              draws = 1\<rparr>"
    by (simp add: l1 sceneMoved_def scene2_def helmet1_def identityTransform_def
        plain_to_string_def)
  have c7: "actors s1 = [0, 1]" "calls s1 = []" "actors s2 = [0, 1]" "calls s2 = []"
    "sceneLog s2 = \<lparr>infos = [], draws = 0\<rparr>"
    by (simp_all add: g1 g2 sceneMoved_def scene2_def)
  have c8: "bodies (world s2) 0
             = Some \<lparr>position = \<lparr>vx = 1, vy = 2, vz = 3\<rparr>,
                     orientation = \<lparr>qx = 0, qy = 0, qz = 0, qw = 1\<rparr>\<rparr>"
    by (simp add: f2 identityTransform_def toVector3_def)
  show ?thesis
    using h1 h2 h3 n r c1 c2 c3 c4 c5 c6 c7 c8 d by blast
qed

text \<open>
  C8. The two constructors without a physics world leave the handle null, and the update of
  src/Projects/TownRunner on such a component dereferences the null handle, whatever the
  state. The two constructors with a physics world store the address of the body they
  create, and the update of such a component never dereferences a null handle. The update
  dereferences a null handle exactly when the handle is null.
\<close>

theorem update_null_handle:
  "rigidBody (RigidbodyComponent_owner dflt ownerP) = None
   \<and> rigidBody (RigidbodyComponent_owner_order ownerP order) = None
   \<and> RigidbodyComponent_update_TownRunner to_string (RigidbodyComponent_owner dflt ownerP) s
       = Inl NullPointer
   \<and> RigidbodyComponent_update_TownRunner to_string (RigidbodyComponent_owner_order ownerP order) s
       = Inl NullPointer
   \<and> (\<exists>c w'. RigidbodyComponent_world dflt ownerP transform (Some w) = Inr (c, w')
         \<and> rigidBody c = Some (nextBody w) \<and> bodies w' (nextBody w) = Some transform
         \<and> RigidbodyComponent_update_TownRunner to_string c s \<noteq> Inl NullPointer)
   \<and> (\<exists>c w'. RigidbodyComponent_world_order ownerP transform (Some w) order = Inr (c, w')
         \<and> rigidBody c = Some (nextBody w) \<and> bodies w' (nextBody w) = Some transform
         \<and> RigidbodyComponent_update_TownRunner to_string c s \<noteq> Inl NullPointer)
   \<and> ((RigidbodyComponent_update_TownRunner to_string c' s = Inl NullPointer)
        = (rigidBody c' = None))"
  by (simp add: RigidbodyComponent_owner_def RigidbodyComponent_owner_order_def
      RigidbodyComponent_world_def RigidbodyComponent_world_order_def createRigidBody_def
      RigidbodyComponent_update_TownRunner_def Let_def split: option.splits)

subsection \<open>Facts about TestScene::Update and TestScene::Render\<close>

lemma Component_update_frame:
  assumes "Component_update to_string c s = Inr s'"
  shows "actors s' = actors s \<and> calls s' = calls s \<and> stateOf a s' = stateOf a s"
proof (cases c)
  case (RigidbodyTownRunner rc)
  then show ?thesis
    using assms
    by (auto simp add: RigidbodyComponent_update_TownRunner_def Let_def stateOf_def
        split: option.splits)
next
  case (RigidbodyPart004 rc)
  then show ?thesis
    using assms
    by (auto simp add: RigidbodyComponent_update_part004_def Let_def stateOf_def
        split: option.splits)
next
  case Collision
  then show ?thesis using assms by simp
qed

lemma updateComponents_frame:
  "updateComponents to_string cs s = Inr s' \<Longrightarrow>
     actors s' = actors s \<and> calls s' = calls s \<and> stateOf a s' = stateOf a s"
proof (induction cs arbitrary: s)
  case Nil
  then show ?case by simp
next
  case (Cons c cs)
  from Cons.prems obtain s1 where c: "Component_update to_string c s = Inr s1"
    and r: "updateComponents to_string cs s1 = Inr s'"
    by (auto split: sum.splits)
  show ?case using Component_update_frame [OF c, of a] Cons.IH [OF r] by simp
qed

lemma Actor_Update_frame:
  "Actor_Update to_string actor s = Inr s' \<Longrightarrow>
     actors s' = actors s \<and> calls s' = calls s \<and> stateOf a s' = stateOf a s"
  by (auto simp add: Actor_Update_def split: option.splits dest: updateComponents_frame)

lemma updateActors_effect:
  "updateActors to_string as s = Inr s' \<Longrightarrow>
     actors s' = actors s \<and> calls s' = calls s @ map ActorUpdate as \<and> stateOf a s' = stateOf a s"
proof (induction as arbitrary: s)
  case Nil
  then show ?case by simp
next
  case (Cons b bs)
  from Cons.prems obtain s1 where u: "Actor_Update to_string b (s\<lparr>calls := calls s @ [ActorUpdate b]\<rparr>) = Inr s1"
    and r: "updateActors to_string bs s1 = Inr s'"
    by (auto split: sum.splits)
  show ?case using Actor_Update_frame [OF u, of a] Cons.IH [OF r] by (simp add: stateOf_def)
qed

lemma killBack_effect:
  "killBack s = Inr s' \<Longrightarrow>
     actors s \<noteq> [] \<and> actors s' = actors s \<and> calls s' = calls s
     \<and> stateOf a s' = (if a = last (actors s) then Some Dead else stateOf a s)"
  by (auto simp add: killBack_def stateOf_def split: if_splits option.splits)

lemma forEachDead_id: "forEachDead ds s = s"
  by (induction ds) simp_all

lemma TestScene_Update_effect:
  assumes "TestScene_Update physUpdate to_string k s = Inr s'"
  shows "actors s' = actors s
       \<and> calls s' = calls s @ [SampleBaseUpdate, ReactPhysicUpdate, CameraUpdate] @ map ActorUpdate (actors s)
       \<and> stateOf a s' = (if k \<and> a = last (actors s) then Some Dead else stateOf a s)"
proof -
  let ?s3 = "s\<lparr>world := physUpdate (world s),
               calls := calls s @ [SampleBaseUpdate, ReactPhysicUpdate, CameraUpdate]\<rparr>"
  from assms obtain s4 s5 where
    u: "updateActors to_string (actors s) ?s3 = Inr s4" and
    k: "(if k then killBack s4 else Inr s4) = Inr s5" and
    e: "s' = s5"
    by (auto simp add: TestScene_Update_def Let_def forEachDead_id split: sum.splits)
  have f4: "actors s4 = actors s" "calls s4 = calls ?s3 @ map ActorUpdate (actors s)"
    "stateOf a s4 = stateOf a s"
    using updateActors_effect [OF u, of a] by (simp_all add: stateOf_def)
  show ?thesis
  proof (cases k)
    case True
    then have "killBack s4 = Inr s5" using k by simp
    from killBack_effect [OF this, of a] show ?thesis using f4 e True by simp
  next
    case False
    then show ?thesis using k f4 e by simp
  qed
qed

lemma renderActors_effect:
  "renderActors as s = Inr s' \<Longrightarrow>
     s' = s\<lparr>calls := calls s @ map RenderActor (filter (\<lambda>a. stateOf a s = Some Active) as)\<rparr>"
proof (induction as arbitrary: s)
  case Nil
  then show ?case by simp
next
  case (Cons b bs)
  from Cons.prems obtain obj where obj: "heap s b = Some obj"
    by (auto split: option.splits)
  show ?case
  proof (cases "actorState obj = Active")
    case True
    then have "renderActors bs (s\<lparr>calls := calls s @ [RenderActor b]\<rparr>) = Inr s'"
      using Cons.prems obj by simp
    from Cons.IH [OF this] show ?thesis using obj True by (simp add: stateOf_def)
  next
    case False
    then have "renderActors bs s = Inr s'"
      using Cons.prems obj by simp
    from Cons.IH [OF this] show ?thesis using obj False by (simp add: stateOf_def)
  qed
qed

lemma updatedActors_append: "updatedActors (es @ fs) = updatedActors es @ updatedActors fs"
  by (induction es rule: updatedActors.induct) simp_all

lemma updatedActors_map: "updatedActors (map ActorUpdate as) = as"
  by (induction as) simp_all

lemma renderedActors_append: "renderedActors (es @ fs) = renderedActors es @ renderedActors fs"
  by (induction es rule: renderedActors.induct) simp_all

lemma renderedActors_map: "renderedActors (map RenderActor as) = as"
  by (induction as) simp_all

text \<open>On a well-formed scene every step of a frame returns and keeps the scene well-formed.\<close>

lemma sameShape_refl: "sameShape s s"
  by (simp add: sameShape_def)

lemma sameShape_trans: "sameShape s s1 \<Longrightarrow> sameShape s1 s2 \<Longrightarrow> sameShape s s2"
  by (simp add: sameShape_def)

lemma sameShape_heap_None: "sameShape s s' \<Longrightarrow> (heap s' a = None) = (heap s a = None)"
  by (metis sameShape_def option.map_disc_iff)

lemma sameShape_bodies_None:
  "sameShape s s' \<Longrightarrow> (bodies (world s') r = None) = (bodies (world s) r = None)"
  by (simp add: sameShape_def)

lemma sameShape_componentOK:
  assumes "sameShape s s'"
  shows "componentOK s' c = componentOK s c"
  by (cases c)
     (simp_all add: sameShape_heap_None [OF assms] sameShape_bodies_None [OF assms]
        split: option.splits)

lemma sameShape_actorOK:
  assumes "sameShape s s'"
  shows "actorOK s' a = actorOK s a"
proof (cases "heap s a")
  case None
  then have "heap s' a = None" using sameShape_heap_None [OF assms, of a] by simp
  then show ?thesis using None by (simp add: actorOK_def)
next
  case (Some obj)
  have "map_option components (heap s' a) = map_option components (heap s a)"
    using assms by (simp add: sameShape_def)
  then obtain obj' where "heap s' a = Some obj'" "components obj' = components obj"
    using Some by auto
  moreover have "componentOK s' = componentOK s"
    using sameShape_componentOK [OF assms] by (intro ext)
  ultimately show ?thesis
    using Some by (simp add: actorOK_def)
qed

lemma sameShape_calls: "sameShape s (s\<lparr>calls := c\<rparr>)"
  by (simp add: sameShape_def)

lemma Component_update_OK:
  assumes "componentOK s c"
  shows "\<exists>s'. Component_update to_string c s = Inr s' \<and> sameShape s s'"
proof (cases c)
  case (RigidbodyTownRunner rc)
  then show ?thesis
    using assms
    by (auto simp add: RigidbodyComponent_update_TownRunner_def Let_def sameShape_def
        split: option.splits)
next
  case (RigidbodyPart004 rc)
  then show ?thesis
    using assms
    by (auto simp add: RigidbodyComponent_update_part004_def Let_def sameShape_def
        split: option.splits)
next
  case Collision
  then show ?thesis by (simp add: sameShape_refl)
qed

lemma updateComponents_OK:
  "list_all (componentOK s) cs \<Longrightarrow>
     \<exists>s'. updateComponents to_string cs s = Inr s' \<and> sameShape s s'"
proof (induction cs arbitrary: s)
  case Nil
  then show ?case by (simp add: sameShape_refl)
next
  case (Cons c cs)
  from Cons.prems have c: "componentOK s c" and cs: "list_all (componentOK s) cs" by simp_all
  from Component_update_OK [OF c, of to_string] obtain s1 where
    u: "Component_update to_string c s = Inr s1" and sh: "sameShape s s1"
    by blast
  have "list_all (componentOK s1) cs"
    using cs sameShape_componentOK [OF sh] by (simp add: list_all_iff)
  from Cons.IH [OF this] obtain s' where
    r: "updateComponents to_string cs s1 = Inr s'" and sh': "sameShape s1 s'"
    by blast
  show ?case using u r sameShape_trans [OF sh sh'] by simp
qed

lemma Actor_Update_OK:
  assumes "actorOK s a"
  shows "\<exists>s'. Actor_Update to_string a s = Inr s' \<and> sameShape s s'"
proof -
  from assms obtain obj where h: "heap s a = Some obj" and cs: "list_all (componentOK s) (components obj)"
    by (auto simp add: actorOK_def split: option.splits)
  from updateComponents_OK [OF cs, of to_string] show ?thesis
    using h by (simp add: Actor_Update_def)
qed

lemma updateActors_OK:
  "list_all (actorOK s) as \<Longrightarrow> \<exists>s'. updateActors to_string as s = Inr s' \<and> sameShape s s'"
proof (induction as arbitrary: s)
  case Nil
  then show ?case by (simp add: sameShape_refl)
next
  case (Cons b bs)
  let ?s0 = "s\<lparr>calls := calls s @ [ActorUpdate b]\<rparr>"
  have sh0: "sameShape s ?s0" by (rule sameShape_calls)
  from Cons.prems have "actorOK ?s0 b" and bs: "list_all (actorOK s) bs"
    using sameShape_actorOK [OF sh0] by simp_all
  from Actor_Update_OK [OF this(1), of to_string] obtain s1 where
    u: "Actor_Update to_string b ?s0 = Inr s1" and sh1: "sameShape ?s0 s1"
    by blast
  have sh: "sameShape s s1" using sameShape_trans [OF sh0 sh1] .
  have "list_all (actorOK s1) bs"
    using bs sameShape_actorOK [OF sh] by (simp add: list_all_iff)
  from Cons.IH [OF this] obtain s' where
    r: "updateActors to_string bs s1 = Inr s'" and sh': "sameShape s1 s'"
    by blast
  show ?case using u r sameShape_trans [OF sh sh'] by simp
qed

lemma killBack_OK:
  assumes "list_all (actorOK s) (actors s)" "actors s \<noteq> []"
  shows "\<exists>s'. killBack s = Inr s' \<and> sameShape s s'"
proof -
  have "last (actors s) \<in> set (actors s)" using assms(2) by simp
  then have "actorOK s (last (actors s))" using assms(1) by (simp add: list_all_iff)
  then obtain obj where "heap s (last (actors s)) = Some obj"
    by (auto simp add: actorOK_def split: option.splits)
  then show ?thesis using assms(2) by (simp add: killBack_def sameShape_def)
qed

lemma collectDead_OK:
  "list_all (actorOK s) as \<Longrightarrow> \<exists>ds. collectDead as (heap s) acc = Inr ds"
proof (induction as arbitrary: acc)
  case Nil
  then show ?case by simp
next
  case (Cons b bs)
  then obtain obj where "heap s b = Some obj"
    by (auto simp add: actorOK_def split: option.splits)
  then show ?case using Cons by simp
qed

lemma TestScene_Update_OK:
  assumes "sceneOK s" "keepsBodies physUpdate" "k \<longrightarrow> actors s \<noteq> []"
  shows "\<exists>s'. TestScene_Update physUpdate to_string k s = Inr s' \<and> sceneOK s'"
proof -
  let ?s3 = "s\<lparr>world := physUpdate (world s),
               calls := calls s @ [SampleBaseUpdate, ReactPhysicUpdate, CameraUpdate]\<rparr>"
  have sh3: "sameShape s ?s3"
    using assms(2) by (simp add: sameShape_def keepsBodies_def)
  have ok3: "list_all (actorOK ?s3) (actors s)"
    using assms(1) sameShape_actorOK [OF sh3] by (simp add: sceneOK_def list_all_iff)
  from updateActors_OK [OF ok3, of to_string] obtain s4 where
    u: "updateActors to_string (actors s) ?s3 = Inr s4" and sh4: "sameShape ?s3 s4"
    by blast
  have a4: "actors s4 = actors s" using updateActors_effect [OF u] by simp
  have sh: "sameShape s s4" using sameShape_trans [OF sh3 sh4] .
  have ok4: "list_all (actorOK s4) (actors s4)"
    using assms(1) sameShape_actorOK [OF sh] a4 by (simp add: sceneOK_def list_all_iff)
  have "\<exists>s5. (if k then killBack s4 else Inr s4) = Inr s5 \<and> sameShape s4 s5 \<and> actors s5 = actors s4"
  proof (cases k)
    case True
    then have "actors s4 \<noteq> []" using assms(3) a4 by simp
    from killBack_OK [OF ok4 this] obtain s5 where kb: "killBack s4 = Inr s5" "sameShape s4 s5"
      by blast
    then show ?thesis using True killBack_effect [OF kb(1)] by simp
  next
    case False
    then show ?thesis by (simp add: sameShape_refl)
  qed
  then obtain s5 where k5: "(if k then killBack s4 else Inr s4) = Inr s5"
    and sh5: "sameShape s4 s5" and a5: "actors s5 = actors s4"
    by blast
  have ok5: "list_all (actorOK s5) (actors s5)"
    using ok4 sameShape_actorOK [OF sh5] a5 by (simp add: list_all_iff)
  from collectDead_OK [OF ok5, of "[]"] obtain ds where
    cd: "collectDead (actors s5) (heap s5) [] = Inr ds"
    by blast
  have "TestScene_Update physUpdate to_string k s = Inr s5"
    using u k5 cd a4 by (simp add: TestScene_Update_def Let_def forEachDead_id)
  then show ?thesis using ok5 by (simp add: sceneOK_def)
qed

lemma renderActors_OK:
  "list_all (actorOK s) as \<Longrightarrow> \<exists>s'. renderActors as s = Inr s'"
proof (induction as arbitrary: s)
  case Nil
  then show ?case by simp
next
  case (Cons b bs)
  then obtain obj where h: "heap s b = Some obj"
    by (auto simp add: actorOK_def split: option.splits)
  let ?s1 = "s\<lparr>calls := calls s @ [RenderActor b]\<rparr>"
  have "list_all (actorOK ?s1) bs"
    using Cons.prems sameShape_actorOK [OF sameShape_calls, where s = s] by (simp add: list_all_iff)
  from Cons.IH [OF this] Cons.IH [of s] Cons.prems show ?case using h by simp
qed

lemma TestScene_Render_OK: "sceneOK s \<Longrightarrow> \<exists>s'. TestScene_Render s = Inr s'"
proof -
  assume ok: "sceneOK s"
  let ?s1 = "s\<lparr>calls := calls s @ [SetRenderTargets, ClearRenderTarget, ClearDepthStencil, EnvMapRender]\<rparr>"
  have "list_all (actorOK ?s1) (actors s)"
    using ok sameShape_actorOK [OF sameShape_calls, where s = s] by (simp add: sceneOK_def list_all_iff)
  from renderActors_OK [OF this] show ?thesis by (simp add: TestScene_Render_def)
qed

lemma run_OK:
  "sceneOK s \<Longrightarrow> keepsBodies physUpdate \<Longrightarrow> actors s \<noteq> [] \<Longrightarrow>
     \<exists>ss. run physUpdate to_string ks s = Inr ss \<and> length ss = Suc (length ks)"
proof (induction ks arbitrary: s)
  case Nil
  then show ?case by simp
next
  case (Cons k ks)
  from TestScene_Update_OK [OF Cons.prems(1,2), of k to_string] Cons.prems(3) obtain s1 where
    u: "TestScene_Update physUpdate to_string k s = Inr s1" and ok: "sceneOK s1"
    by blast
  have "actors s1 \<noteq> []" using TestScene_Update_effect [OF u] Cons.prems(3) by simp
  from Cons.IH [OF ok Cons.prems(2) this] show ?case using u by auto
qed

lemma examples_OK: "sceneOK scene2" "sceneOK sceneKilled" "keepsBodies id"
  by (simp_all add: sceneOK_def actorOK_def scene2_def sceneKilled_def helmet1_def animPeople1_def
      keepsBodies_def)

text \<open>
  C1, on the code: in the scene of two active actors, a frame with the key MoveBackward down
  returns with both actors in the list, the second one dead. The loop over the dead actors
  has an empty body.
\<close>

theorem Update_keeps_dead_actor:
  "\<exists>s'. TestScene_Update id plain_to_string True scene2 = Inr s' \<and> actors s' = [0, 1]
         \<and> filter (\<lambda>a. stateOf a s' = Some Dead) (actors s') = [1]"
  by (simp add: TestScene_Update_def Let_def scene2_def Actor_Update_def helmet1_def animPeople1_def
      RigidbodyComponent_update_part004_def killBack_def stateOf_def identityTransform_def)

text \<open>
  C3. A call of \<^verbatim>\<open>TestScene::Update\<close> that returns has made these calls, in this order:
  the update of the base class, the update of the physics world, the update of the camera,
  and then one \<^verbatim>\<open>Update\<close> for each entry of the actors list, in the order of the list. The
  actors are updated in the state whose physics world has been updated already. On a
  well-formed scene, with a physics step that keeps the bodies and, when the key is down, a
  list that is not empty, the call returns.
\<close>

theorem Update_call_order:
  "(TestScene_Update physUpdate to_string k s = Inr s' \<longrightarrow>
      calls s' = calls s @ [SampleBaseUpdate, ReactPhysicUpdate, CameraUpdate]
                   @ map ActorUpdate (actors s)
      \<and> (\<exists>s4. updateActors to_string (actors s)
                 (s\<lparr>world := physUpdate (world s),
                    calls := calls s @ [SampleBaseUpdate, ReactPhysicUpdate, CameraUpdate]\<rparr>) = Inr s4
              \<and> world s' = world s4 \<and> sceneLog s' = sceneLog s4))
   \<and> (sceneOK s \<and> keepsBodies physUpdate \<and> (k \<longrightarrow> actors s \<noteq> []) \<longrightarrow>
        (\<exists>s''. TestScene_Update physUpdate to_string k s = Inr s''))"
proof (intro conjI impI)
  assume r: "TestScene_Update physUpdate to_string k s = Inr s'"
  show "calls s' = calls s @ [SampleBaseUpdate, ReactPhysicUpdate, CameraUpdate]
                      @ map ActorUpdate (actors s)"
    using TestScene_Update_effect [OF r] by simp
  from r obtain s4 s5 where
    u: "updateActors to_string (actors s)
          (s\<lparr>world := physUpdate (world s),
             calls := calls s @ [SampleBaseUpdate, ReactPhysicUpdate, CameraUpdate]\<rparr>) = Inr s4" and
    k: "(if k then killBack s4 else Inr s4) = Inr s5" and
    e: "s' = s5"
    by (auto simp add: TestScene_Update_def Let_def forEachDead_id split: sum.splits)
  have "world s5 = world s4 \<and> sceneLog s5 = sceneLog s4"
    using k by (auto simp add: killBack_def split: if_splits option.splits)
  then show "\<exists>s4. updateActors to_string (actors s)
                 (s\<lparr>world := physUpdate (world s),
                    calls := calls s @ [SampleBaseUpdate, ReactPhysicUpdate, CameraUpdate]\<rparr>) = Inr s4
              \<and> world s' = world s4 \<and> sceneLog s' = sceneLog s4"
    using u e by blast
next
  assume "sceneOK s \<and> keepsBodies physUpdate \<and> (k \<longrightarrow> actors s \<noteq> [])"
  then show "\<exists>s''. TestScene_Update physUpdate to_string k s = Inr s''"
    using TestScene_Update_OK [of s physUpdate k to_string] by blast
qed

theorem Update_call_order_witness:
  "sceneOK scene2 \<and> keepsBodies id \<and> actors scene2 \<noteq> []
   \<and> (\<exists>s'. TestScene_Update id plain_to_string True scene2 = Inr s'
        \<and> calls s' = [SampleBaseUpdate, ReactPhysicUpdate, CameraUpdate, ActorUpdate 0, ActorUpdate 1])"
proof -
  have ne: "actors scene2 \<noteq> []" by (simp add: scene2_def)
  from Update_call_order [of id plain_to_string True scene2] examples_OK ne obtain s' where
    r: "TestScene_Update id plain_to_string True scene2 = Inr s'"
    by blast
  from Update_call_order [of id plain_to_string True scene2 s'] r have
    "calls s' = calls scene2 @ [SampleBaseUpdate, ReactPhysicUpdate, CameraUpdate]
                      @ map ActorUpdate (actors scene2)"
    by blast
  then have "calls s' = [SampleBaseUpdate, ReactPhysicUpdate, CameraUpdate, ActorUpdate 0, ActorUpdate 1]"
    by (simp add: scene2_def)
  then show ?thesis using r ne examples_OK by blast
qed

text \<open>Two frames of the example scene, the first one with the key MoveBackward down.\<close>

lemma Update_scene2: "TestScene_Update id plain_to_string True scene2 = Inr sceneKilled"
  by (simp add: TestScene_Update_def Let_def scene2_def sceneKilled_def Actor_Update_def helmet1_def
      animPeople1_def RigidbodyComponent_update_part004_def killBack_def identityTransform_def)

lemma Update_sceneKilled:
  "\<exists>s'. TestScene_Update id plain_to_string False sceneKilled = Inr s' \<and> stateOf 1 s' = Some Dead
     \<and> updatedActors (calls s') = [0, 1, 0, 1]"
  by (simp add: TestScene_Update_def Let_def scene2_def sceneKilled_def Actor_Update_def helmet1_def
      animPeople1_def RigidbodyComponent_update_part004_def identityTransform_def stateOf_def)

text \<open>
  C9. A call of \<^verbatim>\<open>TestScene::Render\<close> that returns has called \<^verbatim>\<open>RenderActor\<close> on the
  actors of the list whose state is Active, in the order of the list, and on no other actor
  of the list; a call of \<^verbatim>\<open>TestScene::Update\<close> that returns has called \<^verbatim>\<open>Update\<close> on every
  actor of the list, whatever its state. On a well-formed scene \<^verbatim>\<open>Render\<close> returns.
\<close>

theorem Render_active_Update_all:
  "(TestScene_Render s = Inr s' \<longrightarrow>
      calls s' = calls s @ [SetRenderTargets, ClearRenderTarget, ClearDepthStencil, EnvMapRender]
                   @ map RenderActor (filter (\<lambda>a. stateOf a s = Some Active) (actors s))
      \<and> renderedActors (calls s') =
          renderedActors (calls s) @ filter (\<lambda>a. stateOf a s = Some Active) (actors s))
   \<and> (TestScene_Update physUpdate to_string k s = Inr s'' \<longrightarrow>
      updatedActors (calls s'') = updatedActors (calls s) @ actors s)
   \<and> (sceneOK s \<longrightarrow> (\<exists>s1. TestScene_Render s = Inr s1))"
proof (intro conjI impI)
  assume "TestScene_Render s = Inr s'"
  then have "s' = s\<lparr>calls := calls s @ [SetRenderTargets, ClearRenderTarget, ClearDepthStencil, EnvMapRender]
                   @ map RenderActor (filter (\<lambda>a. stateOf a s = Some Active) (actors s))\<rparr>"
    using renderActors_effect [of "actors s"
        "s\<lparr>calls := calls s @ [SetRenderTargets, ClearRenderTarget, ClearDepthStencil, EnvMapRender]\<rparr>" s']
    by (simp add: TestScene_Render_def stateOf_def)
  then have c: "calls s' = calls s @ [SetRenderTargets, ClearRenderTarget, ClearDepthStencil, EnvMapRender]
                   @ map RenderActor (filter (\<lambda>a. stateOf a s = Some Active) (actors s))"
    by simp
  then show "calls s' = calls s @ [SetRenderTargets, ClearRenderTarget, ClearDepthStencil, EnvMapRender]
                   @ map RenderActor (filter (\<lambda>a. stateOf a s = Some Active) (actors s))" .
  show "renderedActors (calls s') =
          renderedActors (calls s) @ filter (\<lambda>a. stateOf a s = Some Active) (actors s)"
    by (simp add: c renderedActors_append renderedActors_map)
next
  assume "TestScene_Update physUpdate to_string k s = Inr s''"
  from TestScene_Update_effect [OF this] have
    "calls s'' = calls s @ [SampleBaseUpdate, ReactPhysicUpdate, CameraUpdate] @ map ActorUpdate (actors s)"
    by simp
  then show "updatedActors (calls s'') = updatedActors (calls s) @ actors s"
    by (simp add: updatedActors_append updatedActors_map)
next
  assume "sceneOK s"
  then show "\<exists>s1. TestScene_Render s = Inr s1" by (rule TestScene_Render_OK)
qed

theorem Render_active_Update_all_witness:
  "sceneOK sceneKilled
   \<and> (\<exists>s'. TestScene_Render sceneKilled = Inr s' \<and> renderedActors (calls s') = [0])
   \<and> (\<exists>s''. TestScene_Update id plain_to_string False sceneKilled = Inr s''
          \<and> updatedActors (calls s'') = [0, 1, 0, 1])"
proof -
  from Render_active_Update_all [of sceneKilled] examples_OK(2) obtain s' where
    r: "TestScene_Render sceneKilled = Inr s'"
    by blast
  obtain s'' where u: "TestScene_Update id plain_to_string False sceneKilled = Inr s''"
    using Update_sceneKilled by blast
  from Render_active_Update_all [of sceneKilled s' id plain_to_string False s''] r u
  have a: "renderedActors (calls s') = renderedActors (calls sceneKilled)
             @ filter (\<lambda>a. stateOf a sceneKilled = Some Active) (actors sceneKilled)"
    and b: "updatedActors (calls s'') = updatedActors (calls sceneKilled) @ actors sceneKilled"
    by blast+
  have f: "filter (\<lambda>a. stateOf a sceneKilled = Some Active) [0, 1] = [0]"
    by (simp add: sceneKilled_def scene2_def stateOf_def helmet1_def animPeople1_def)
  have c: "renderedActors (calls sceneKilled) = []" "updatedActors (calls sceneKilled) = [0, 1]"
    "actors sceneKilled = [0, 1]"
    by (simp_all add: sceneKilled_def scene2_def)
  have "renderedActors (calls s') = [0]"
    by (simp only: a f c append_Nil)
  moreover have "updatedActors (calls s'') = [0, 1, 0, 1]"
    by (simp only: b c append_Cons append_Nil)
  ultimately show ?thesis using r u examples_OK(2) by blast
qed

subsection \<open>Runs of frames\<close>

lemma run_head: "run physUpdate to_string ks s = Inr ss \<Longrightarrow> \<exists>rest. ss = s # rest"
  by (cases ks) (auto split: sum.splits)

lemma run_dead_stays:
  "run physUpdate to_string ks s = Inr ss \<Longrightarrow> stateOf a s = Some Dead \<Longrightarrow>
     \<forall>s' \<in> set ss. stateOf a s' = Some Dead"
proof (induction ks arbitrary: s ss)
  case Nil
  then show ?case by auto
next
  case (Cons k ks)
  from Cons.prems obtain s1 ss1 where u: "TestScene_Update physUpdate to_string k s = Inr s1"
    and r: "run physUpdate to_string ks s1 = Inr ss1" and e: "ss = s # ss1"
    by (auto split: sum.splits)
  have "stateOf a s1 = Some Dead"
    using TestScene_Update_effect [OF u, of a] Cons.prems(2) by simp
  from Cons.IH [OF r this] show ?case using e Cons.prems(2) by simp
qed

lemma run_actors:
  "run physUpdate to_string ks s = Inr ss \<Longrightarrow> \<forall>s' \<in> set ss. actors s' = actors s"
proof (induction ks arbitrary: s ss)
  case Nil
  then show ?case by auto
next
  case (Cons k ks)
  from Cons.prems obtain s1 ss1 where u: "TestScene_Update physUpdate to_string k s = Inr s1"
    and r: "run physUpdate to_string ks s1 = Inr ss1" and e: "ss = s # ss1"
    by (auto split: sum.splits)
  have "actors s1 = actors s"
    using TestScene_Update_effect [OF u] by simp
  with Cons.IH [OF r] show ?case using e by simp
qed

lemma transitions_none_from: "p \<notin> set ws \<Longrightarrow> transitions p q ws = 0"
  by (induction p q ws rule: transitions.induct) auto

text \<open>
  C6. Along the states of a run of \<^verbatim>\<open>Update\<close> calls, the state of an actor goes from
  Active to Dead at most once and never from Dead to Active; the actors list is the same in
  every state of the run, so that no actor leaves it. From a well-formed scene with actors
  in its list, and with a physics step that keeps the bodies, every run returns.
\<close>

theorem run_state_transitions:
  "(run physUpdate to_string ks s = Inr ss \<longrightarrow>
      transitions (Some Active) (Some Dead) (map (stateOf a) ss) \<le> 1
      \<and> transitions (Some Dead) (Some Active) (map (stateOf a) ss) = 0
      \<and> (\<forall>s' \<in> set ss. actors s' = actors s))
   \<and> (sceneOK s \<and> keepsBodies physUpdate \<and> actors s \<noteq> [] \<longrightarrow>
        (\<exists>ss'. run physUpdate to_string ks s = Inr ss' \<and> length ss' = Suc (length ks)))"
proof (intro conjI impI)
  assume r: "run physUpdate to_string ks s = Inr ss"
  have "transitions (Some Active) (Some Dead) (map (stateOf a) ss) \<le> 1
       \<and> transitions (Some Dead) (Some Active) (map (stateOf a) ss) = 0"
    using r
  proof (induction ks arbitrary: s ss)
    case Nil
    then show ?case by auto
  next
    case (Cons k ks)
    from Cons.prems obtain s1 ss1 where u: "TestScene_Update physUpdate to_string k s = Inr s1"
      and r: "run physUpdate to_string ks s1 = Inr ss1" and e: "ss = s # ss1"
      by (auto split: sum.splits)
    from run_head [OF r] obtain rest where ss1: "ss1 = s1 # rest" by blast
    have step: "stateOf a s1 = (if k \<and> a = last (actors s) then Some Dead else stateOf a s)"
      using TestScene_Update_effect [OF u, of a] by simp
    have ih: "transitions (Some Active) (Some Dead) (map (stateOf a) ss1) \<le> 1"
      "transitions (Some Dead) (Some Active) (map (stateOf a) ss1) = 0"
      using Cons.IH [OF r] by simp_all
    show ?case
    proof (cases "stateOf a s1 = Some Dead")
      case True
      then have "\<forall>s' \<in> set ss1. stateOf a s' = Some Dead"
        using run_dead_stays [OF r] by blast
      then have "Some Active \<notin> set (map (stateOf a) ss1)" by auto
      then have "transitions (Some Active) (Some Dead) (map (stateOf a) ss1) = 0"
        by (rule transitions_none_from)
      then show ?thesis using e ss1 ih True by simp
    next
      case False
      then have "stateOf a s \<noteq> Some Dead" using step by (auto split: if_splits)
      then show ?thesis using e ss1 ih False by simp
    qed
  qed
  then show "transitions (Some Active) (Some Dead) (map (stateOf a) ss) \<le> 1"
    and "transitions (Some Dead) (Some Active) (map (stateOf a) ss) = 0"
    by simp_all
  show "\<forall>s' \<in> set ss. actors s' = actors s"
    using run_actors [OF r] .
next
  assume "sceneOK s \<and> keepsBodies physUpdate \<and> actors s \<noteq> []"
  then show "\<exists>ss'. run physUpdate to_string ks s = Inr ss' \<and> length ss' = Suc (length ks)"
    using run_OK [of s physUpdate to_string ks] by blast
qed

theorem run_state_transitions_witness:
  "sceneOK scene2 \<and> keepsBodies id \<and> actors scene2 \<noteq> []
   \<and> (\<exists>ss. run id plain_to_string [True, False] scene2 = Inr ss
        \<and> map (stateOf 1) ss = [Some Active, Some Dead, Some Dead]
        \<and> transitions (Some Active) (Some Dead) (map (stateOf 1) ss) \<le> 1
        \<and> transitions (Some Dead) (Some Active) (map (stateOf 1) ss) = 0)"
proof -
  have ne: "actors scene2 \<noteq> []" by (simp add: scene2_def)
  from Update_sceneKilled obtain s2 where
    u2: "TestScene_Update id plain_to_string False sceneKilled = Inr s2" and
    d2: "stateOf 1 s2 = Some Dead"
    by blast
  have r: "run id plain_to_string [True, False] scene2 = Inr [scene2, sceneKilled, s2]"
    by (simp add: Update_scene2 u2)
  have "stateOf 1 scene2 = Some Active" "stateOf 1 sceneKilled = Some Dead"
    by (simp_all add: stateOf_def scene2_def sceneKilled_def animPeople1_def)
  then have m: "map (stateOf 1) [scene2, sceneKilled, s2] = [Some Active, Some Dead, Some Dead]"
    using d2 by simp
  from run_state_transitions [of id plain_to_string "[True, False]" scene2 "[scene2, sceneKilled, s2]" 1] r
  have
    t: "transitions (Some Active) (Some Dead) (map (stateOf 1) [scene2, sceneKilled, s2]) \<le> 1"
       "transitions (Some Dead) (Some Active) (map (stateOf 1) [scene2, sceneKilled, s2]) = 0"
    by blast+
  have "\<exists>ss. run id plain_to_string [True, False] scene2 = Inr ss
        \<and> map (stateOf 1) ss = [Some Active, Some Dead, Some Dead]
        \<and> transitions (Some Active) (Some Dead) (map (stateOf 1) ss) \<le> 1
        \<and> transitions (Some Dead) (Some Active) (map (stateOf 1) ss) = 0"
    by (intro exI [of _ "[scene2, sceneKilled, s2]"] conjI) (rule r, rule m, rule t(1), rule t(2))
  then show ?thesis using ne examples_OK by blast
qed

subsection \<open>Facts about the rounding to binary32\<close>

lemma spacing_pos: "0 < spacing i"
  by (simp add: spacing_def)

lemma spacing_Suc: "spacing (Suc i) = 2 * spacing i"
  by (simp add: spacing_def)

lemma spacing_add: "spacing (i + k) = 2 ^ k * spacing i"
  by (simp add: spacing_def power_add)

lemma spacing_mono: "i \<le> j \<Longrightarrow> spacing i \<le> spacing j"
  by (simp add: spacing_def divide_right_mono)

lemma spacing_149: "spacing 149 = 1"
  by (simp add: spacing_def)

lemma spacing_253: "2 ^ 24 * spacing 253 = 2 ^ 128"
  by (simp add: spacing_def)

lemma quantum_cases:
  obtains (found) i where "i < 254" "quantum x = spacing i" "x < 2 ^ 24 * spacing i"
      "i = 0 \<or> 2 ^ 23 * spacing i \<le> x"
    | (huge) "quantum x = spacing 253" "2 ^ 128 \<le> x"
proof (cases "find (\<lambda>i. x < 2 ^ 24 * spacing i) [0..<254]")
  case None
  then have "\<not> x < 2 ^ 24 * spacing 253"
    by (simp add: find_None_iff)
  then have "2 ^ 128 \<le> x" using spacing_253 by simp
  moreover have "quantum x = spacing 253" using None by (simp add: quantum_def)
  ultimately show ?thesis using huge by blast
next
  case (Some i)
  then obtain k where k: "k < 254" "x < 2 ^ 24 * spacing ([0..<254] ! k)" "i = [0..<254] ! k"
    "\<forall>j<k. \<not> x < 2 ^ 24 * spacing ([0..<254] ! j)"
    by (auto simp add: find_Some_iff)
  have ik: "i = k" using k(1,3) by simp
  have lt: "x < 2 ^ 24 * spacing i" using k(1,2) ik by simp
  have low: "i = 0 \<or> 2 ^ 23 * spacing i \<le> x"
  proof (cases i)
    case 0
    then show ?thesis by simp
  next
    case (Suc j)
    then have "j < k" using ik by simp
    then have "\<not> x < 2 ^ 24 * spacing ([0..<254] ! j)" using k(4) by blast
    moreover have "[0..<254] ! j = j" using \<open>j < k\<close> k(1) by simp
    ultimately have "2 ^ 24 * spacing j \<le> x" by simp
    then show ?thesis using Suc by (simp add: spacing_Suc)
  qed
  have "quantum x = spacing i" using Some by (simp add: quantum_def)
  then show ?thesis using found k(1) ik lt low by blast
qed

lemma quantum_eq:
  assumes "i < 254" "x < 2 ^ 24 * spacing i" "i = 0 \<or> 2 ^ 23 * spacing i \<le> x"
  shows "quantum x = spacing i"
proof (cases x rule: quantum_cases)
  case (found j)
  have "j = i"
  proof (rule ccontr)
    assume "j \<noteq> i"
    then consider "j < i" | "i < j" by linarith
    then show False
    proof cases
      case 1
      then have "Suc j \<le> i" by simp
      then have "2 * spacing j \<le> spacing i" using spacing_mono [of "Suc j" i] by (simp add: spacing_Suc)
      moreover have "2 ^ 23 * spacing i \<le> x" using assms(3) 1 by simp
      ultimately have "2 ^ 24 * spacing j \<le> x" by simp
      then show False using found(3) by simp
    next
      case 2
      then have "Suc i \<le> j" by simp
      then have "2 * spacing i \<le> spacing j" using spacing_mono [of "Suc i" j] by (simp add: spacing_Suc)
      moreover have "2 ^ 23 * spacing j \<le> x" using found(4) 2 by simp
      ultimately have "2 ^ 24 * spacing i \<le> x" by simp
      then show False using assms(2) by simp
    qed
  qed
  then show ?thesis using found(2) by simp
next
  case huge
  have "spacing i \<le> spacing 253" using assms(1) by (intro spacing_mono) simp
  then have "2 ^ 24 * spacing i \<le> 2 ^ 128" using spacing_253 by simp
  then show ?thesis using huge(2) assms(2) by simp
qed

lemma rhe_of_int: "rhe (of_int n) = n"
  by (simp add: rhe_def)

lemma rhe_le: "m \<le> of_int J \<Longrightarrow> rhe m \<le> J"
proof -
  assume a: "m \<le> of_int J"
  have f: "\<lfloor>m\<rfloor> \<le> J" using a by (simp add: floor_le_iff)
  show ?thesis
  proof (cases "m = of_int \<lfloor>m\<rfloor>")
    case True
    then have "rhe m = \<lfloor>m\<rfloor>" by (simp add: rhe_def)
    then show ?thesis using f by simp
  next
    case False
    then have "of_int \<lfloor>m\<rfloor> < m" using of_int_floor_le [of m] by linarith
    then have "\<lfloor>m\<rfloor> < J" using a by linarith
    moreover have "rhe m \<le> \<lfloor>m\<rfloor> + 1" by (simp add: rhe_def Let_def)
    ultimately show ?thesis by simp
  qed
qed

lemma rhe_ge: "of_int J \<le> m \<Longrightarrow> J \<le> rhe m"
proof -
  assume "of_int J \<le> m"
  then have "J \<le> \<lfloor>m\<rfloor>" by (simp add: le_floor_iff)
  moreover have "\<lfloor>m\<rfloor> \<le> rhe m" by (simp add: rhe_def Let_def)
  ultimately show ?thesis by simp
qed

lemma rhe_half: "rhe (of_int k + 1 / 2) = (if even k then k else k + 1)"
proof -
  have "\<lfloor>of_int k + (1 / 2 :: real)\<rfloor> = k" by (simp add: floor_eq_iff)
  then show ?thesis by (simp add: rhe_def Let_def)
qed

lemma round32_roundmag:
  "round32 x =
     (if 2 ^ 128 \<le> roundmag \<bar>x\<bar> then (if x < 0 then NInf else PInf)
      else Finite (if x < 0 then - roundmag \<bar>x\<bar> else roundmag \<bar>x\<bar>))"
  by (simp add: round32_def roundmag_def Let_def)

lemma spacing_le_253: "j < 254 \<Longrightarrow> 2 ^ 24 * spacing j \<le> 2 ^ 128"
proof -
  assume "j < 254"
  then have "spacing j \<le> spacing 253" by (intro spacing_mono) simp
  then show ?thesis using spacing_253 by simp
qed

text \<open>A multiple of a quantum with a mantissa of 24 bits rounds to itself.\<close>

lemma roundmag_exact:
  assumes "j < 254" "0 \<le> X" "X < 2 ^ 24"
  shows "roundmag (of_int X * spacing j) = of_int X * spacing j"
proof (cases "of_int X * spacing j" rule: quantum_cases)
  case (found i)
  have ij: "i \<le> j"
  proof (rule ccontr)
    assume "\<not> i \<le> j"
    then have "Suc j \<le> i" by simp
    then have "2 * spacing j \<le> spacing i" using spacing_mono [of "Suc j" i] by (simp add: spacing_Suc)
    moreover have "2 ^ 23 * spacing i \<le> of_int X * spacing j" using found(4) \<open>Suc j \<le> i\<close> by auto
    ultimately have "2 ^ 24 * spacing j \<le> of_int X * spacing j" by simp
    then have "(2 ^ 24 :: real) \<le> of_int X" using spacing_pos [of j] by simp
    then show False using assms(3) by simp
  qed
  then obtain k where k: "j = i + k" using le_Suc_ex by blast
  have "of_int X * spacing j / spacing i = of_int (X * 2 ^ k)"
    using spacing_pos [of i] by (simp add: k spacing_add)
  then have "rhe (of_int X * spacing j / spacing i) = X * 2 ^ k"
    using rhe_of_int by presburger
  then have "roundmag (of_int X * spacing j) = of_int (X * 2 ^ k) * spacing i"
    by (simp add: roundmag_def found(2))
  then show ?thesis by (simp add: k spacing_add)
next
  case huge
  have "of_int X * spacing j < 2 ^ 24 * spacing j" using assms(3) spacing_pos [of j] by simp
  then show ?thesis using huge(2) spacing_le_253 [OF assms(1)] by simp
qed

lemma round32_exact:
  assumes "j < 254" "\<bar>X\<bar> < 2 ^ 24"
  shows "round32 (of_int X * spacing j) = Finite (of_int X * spacing j)"
proof -
  define x where "x = of_int X * spacing j"
  have a: "\<bar>x\<bar> = of_int \<bar>X\<bar> * spacing j"
    using spacing_pos [of j] by (simp add: x_def abs_mult)
  have m: "roundmag \<bar>x\<bar> = \<bar>x\<bar>"
    unfolding a using assms by (intro roundmag_exact) simp_all
  have "of_int \<bar>X\<bar> * spacing j < 2 ^ 24 * spacing j" using assms(2) spacing_pos [of j] by simp
  then have lt: "\<bar>x\<bar> < 2 ^ 128" using spacing_le_253 [OF assms(1)] a by simp
  have "round32 x = Finite x"
    unfolding round32_roundmag m using lt by auto
  then show ?thesis by (simp add: x_def)
qed

lemma representable_mult: "j < 254 \<Longrightarrow> \<bar>X\<bar> < 2 ^ 24 \<Longrightarrow> representable (of_int X * spacing j)"
  by (simp add: representable_def round32_exact)

text \<open>The magnitude of a rounded value on its quantum.\<close>

lemma roundmag_nonneg: "0 \<le> x \<Longrightarrow> 0 \<le> roundmag x"
proof (cases x rule: quantum_cases)
  case (found i)
  assume "0 \<le> x"
  then have "of_int 0 \<le> x / spacing i" using spacing_pos [of i] by simp
  then have "0 \<le> rhe (x / spacing i)" by (rule rhe_ge)
  then show ?thesis using spacing_pos [of i] by (simp add: roundmag_def found(2))
next
  case huge
  assume "0 \<le> x"
  then have "of_int 0 \<le> x / spacing 253" using spacing_pos [of 253] by simp
  then have "0 \<le> rhe (x / spacing 253)" by (rule rhe_ge)
  then show ?thesis using spacing_pos [of 253] by (simp add: roundmag_def huge(1))
qed

lemma roundmag_form:
  assumes "0 \<le> x" "roundmag x < 2 ^ 128"
  shows "\<exists>j X. j < 254 \<and> 0 \<le> X \<and> X < 2 ^ 24 \<and> roundmag x = of_int X * spacing j"
proof (cases x rule: quantum_cases)
  case (found i)
  let ?n = "rhe (x / spacing i)"
  have r: "roundmag x = of_int ?n * spacing i" by (simp add: roundmag_def found(2))
  have "of_int 0 \<le> x / spacing i" using assms(1) spacing_pos [of i] by simp
  then have n0: "0 \<le> ?n" by (rule rhe_ge)
  have "x / spacing i \<le> of_int (2 ^ 24)" using found(3) spacing_pos [of i] by (simp add: pos_divide_le_eq)
  then have n24: "?n \<le> 2 ^ 24" by (rule rhe_le)
  show ?thesis
  proof (cases "?n = 2 ^ 24")
    case True
    then have v: "roundmag x = 2 ^ 24 * spacing i" using r by simp
    have "i \<noteq> 253" using v assms(2) spacing_253 by auto
    then have "Suc i < 254" using found(1) by simp
    moreover have "roundmag x = of_int (2 ^ 23) * spacing (Suc i)" using v by (simp add: spacing_Suc)
    ultimately show ?thesis by (intro exI [of _ "Suc i"] exI [of _ "2 ^ 23"]) simp
  next
    case False
    then have "?n < 2 ^ 24" using n24 by simp
    then show ?thesis using r n0 found(1) by blast
  qed
next
  case huge
  have "of_int (2 ^ 24) \<le> x / spacing 253"
    using huge(2) spacing_253 spacing_pos [of 253] by (simp add: pos_le_divide_eq mult.commute)
  then have "2 ^ 24 \<le> rhe (x / spacing 253)" by (rule rhe_ge)
  then have "(2 ^ 24 :: real) \<le> of_int (rhe (x / spacing 253))" by simp
  then have "2 ^ 24 * spacing 253 \<le> of_int (rhe (x / spacing 253)) * spacing 253"
    using spacing_pos [of 253] by simp
  then have "2 ^ 128 \<le> roundmag x" using spacing_253 by (simp add: roundmag_def huge(1))
  then show ?thesis using assms(2) by simp
qed

lemma round32_Finite_form:
  assumes "round32 x = Finite y"
  shows "\<exists>j X. j < 254 \<and> \<bar>X\<bar> < 2 ^ 24 \<and> y = of_int X * spacing j"
proof -
  have lt: "roundmag \<bar>x\<bar> < 2 ^ 128" and y: "y = (if x < 0 then - roundmag \<bar>x\<bar> else roundmag \<bar>x\<bar>)"
    using assms by (auto simp add: round32_roundmag split: if_splits)
  from roundmag_form [OF _ lt] obtain j X where
    f: "j < 254" "0 \<le> X" "X < 2 ^ 24" "roundmag \<bar>x\<bar> = of_int X * spacing j"
    by auto
  show ?thesis
  proof (cases "x < 0")
    case True
    then have "y = of_int (- X) * spacing j" using y f(4) by simp
    then show ?thesis using f(1,2,3) by (intro exI [of _ j] exI [of _ "- X"]) simp
  next
    case False
    then have "y = of_int X * spacing j" using y f(4) by simp
    then show ?thesis using f(1,2,3) by (intro exI [of _ j] exI [of _ X]) simp
  qed
qed

lemma round32_Finite_representable: "round32 x = Finite y \<Longrightarrow> representable y"
  using round32_Finite_form representable_mult by blast

lemma representable_form:
  "representable y \<Longrightarrow> \<exists>j X. j < 254 \<and> \<bar>X\<bar> < 2 ^ 24 \<and> y = of_int X * spacing j"
  unfolding representable_def by (rule round32_Finite_form)

text \<open>The form with the least quantum.\<close>

lemma representable_canonical:
  assumes "representable y" "0 \<le> y"
  shows "\<exists>i n. i < 254 \<and> 0 \<le> n \<and> n < 2 ^ 24 \<and> (i = 0 \<or> 2 ^ 23 \<le> n) \<and> y = of_int n * spacing i"
proof -
  have r: "roundmag y = y" and lt: "roundmag y < 2 ^ 128"
    using assms by (auto simp add: representable_def round32_roundmag split: if_splits)
  show ?thesis
  proof (cases y rule: quantum_cases)
    case (found i)
    define n where "n = rhe (y / spacing i)"
    have e: "y = of_int n * spacing i" using r by (simp add: roundmag_def found(2) n_def)
    have "of_int n * spacing i < 2 ^ 24 * spacing i" using found(3) e by simp
    then have "(of_int n :: real) < 2 ^ 24" using spacing_pos [of i] by simp
    then have n24: "n < 2 ^ 24" by simp
    have "0 \<le> of_int n * spacing i" using assms(2) e by simp
    then have "(0 :: real) \<le> of_int n" using spacing_pos [of i] by (simp add: zero_le_mult_iff)
    then have n0: "0 \<le> n" by simp
    have low: "i = 0 \<or> 2 ^ 23 \<le> n"
    proof (cases "i = 0")
      case True
      then show ?thesis by simp
    next
      case False
      then have "2 ^ 23 * spacing i \<le> of_int n * spacing i" using found(4) e by simp
      then have "(2 ^ 23 :: real) \<le> of_int n" using spacing_pos [of i] by simp
      then have "2 ^ 23 \<le> n" by simp
      then show ?thesis by simp
    qed
    show ?thesis using found(1) n0 n24 low e by blast
  next
    case huge
    then show ?thesis using r lt by simp
  qed
qed

lemma representable_lt: "representable y \<Longrightarrow> \<bar>y\<bar> < 2 ^ 128"
proof -
  assume "representable y"
  from representable_form [OF this] obtain j X where
    f: "j < 254" "\<bar>X\<bar> < 2 ^ 24" "y = of_int X * spacing j"
    by blast
  have "\<bar>y\<bar> = of_int \<bar>X\<bar> * spacing j" using spacing_pos [of j] by (simp add: f(3) abs_mult)
  moreover have "of_int \<bar>X\<bar> * spacing j < 2 ^ 24 * spacing j" using f(2) spacing_pos [of j] by simp
  ultimately show ?thesis using spacing_le_253 [OF f(1)] by simp
qed

lemma representable_neg: "representable (- y) = representable y"
proof -
  have "representable y \<Longrightarrow> representable (- y)" for y
  proof -
    assume "representable y"
    from representable_form [OF this] obtain j X where
      f: "j < 254" "\<bar>X\<bar> < 2 ^ 24" "y = of_int X * spacing j"
      by blast
    have "- y = of_int (- X) * spacing j" by (simp add: f(3))
    then show "representable (- y)" using representable_mult [of j "- X"] f(1,2) by simp
  qed
  from this [of y] this [of "- y"] show ?thesis by auto
qed

lemma representable_0: "representable 0"
  using representable_mult [of 0 0] by simp

text \<open>Rounding stays on the same side of a representable number.\<close>

lemma roundmag_le:
  assumes "0 \<le> x" "x \<le> b" "representable b"
  shows "roundmag x \<le> b"
proof -
  have b0: "0 \<le> b" using assms by simp
  from representable_canonical [OF assms(3) b0] obtain ib B where
    cb: "ib < 254" "0 \<le> B" "B < 2 ^ 24" "ib = 0 \<or> 2 ^ 23 \<le> B" "b = of_int B * spacing ib"
    by blast
  have blt: "b < 2 ^ 24 * spacing ib" using cb(3,5) spacing_pos [of ib] by simp
  show ?thesis
  proof (cases x rule: quantum_cases)
    case (found i)
    have "i \<le> ib"
    proof (rule ccontr)
      assume "\<not> i \<le> ib"
      then have s: "Suc ib \<le> i" by simp
      then have "2 * spacing ib \<le> spacing i" using spacing_mono [of "Suc ib" i] by (simp add: spacing_Suc)
      moreover have "2 ^ 23 * spacing i \<le> x" using found(4) s by auto
      ultimately have "2 ^ 24 * spacing ib \<le> x" by simp
      then show False using blt assms(2) by simp
    qed
    then obtain k where k: "ib = i + k" using le_Suc_ex by blast
    have "x / spacing i \<le> b / spacing i" using assms(2) spacing_pos [of i] by (simp add: divide_right_mono)
    also have "b / spacing i = of_int (B * 2 ^ k)" using spacing_pos [of i] by (simp add: cb(5) k spacing_add)
    finally have "rhe (x / spacing i) \<le> B * 2 ^ k" by (rule rhe_le)
    then have "(of_int (rhe (x / spacing i)) :: real) \<le> of_int (B * 2 ^ k)" by (simp only: of_int_le_iff)
    then have "of_int (rhe (x / spacing i)) * spacing i \<le> of_int (B * 2 ^ k) * spacing i"
      using spacing_pos [of i] by (simp only: mult_le_cancel_right) simp
    then show ?thesis by (simp add: roundmag_def found(2) cb(5) k spacing_add)
  next
    case huge
    then show ?thesis using assms(2) representable_lt [OF assms(3)] by simp
  qed
qed

lemma roundmag_ge:
  assumes "0 \<le> a" "a \<le> x" "representable a"
  shows "a \<le> roundmag x"
proof -
  from representable_canonical [OF assms(3) assms(1)] obtain ia A where
    ca: "ia < 254" "0 \<le> A" "A < 2 ^ 24" "ia = 0 \<or> 2 ^ 23 \<le> A" "a = of_int A * spacing ia"
    by blast
  have alt: "a < 2 ^ 24 * spacing ia" using ca(3,5) spacing_pos [of ia] by simp
  show ?thesis
  proof (cases x rule: quantum_cases)
    case (found i)
    show ?thesis
    proof (cases "i \<le> ia")
      case True
      then obtain k where k: "ia = i + k" using le_Suc_ex by blast
      have "a / spacing i \<le> x / spacing i" using assms(2) spacing_pos [of i] by (simp add: divide_right_mono)
      moreover have "a / spacing i = of_int (A * 2 ^ k)" using spacing_pos [of i] by (simp add: ca(5) k spacing_add)
      ultimately have "of_int (A * 2 ^ k) \<le> x / spacing i" by simp
      then have "A * 2 ^ k \<le> rhe (x / spacing i)" by (rule rhe_ge)
      then have "(of_int (A * 2 ^ k) :: real) \<le> of_int (rhe (x / spacing i))" by (simp only: of_int_le_iff)
      then have "of_int (A * 2 ^ k) * spacing i \<le> of_int (rhe (x / spacing i)) * spacing i"
        using spacing_pos [of i] by (simp only: mult_le_cancel_right) simp
      then show ?thesis by (simp add: roundmag_def found(2) ca(5) k spacing_add)
    next
      case False
      then have s: "Suc ia \<le> i" by simp
      then have q: "2 * spacing ia \<le> spacing i" using spacing_mono [of "Suc ia" i] by (simp add: spacing_Suc)
      have "2 ^ 23 * spacing i \<le> x" using found(4) s by auto
      then have "of_int (2 ^ 23) \<le> x / spacing i" using spacing_pos [of i] by (simp add: pos_le_divide_eq)
      then have "2 ^ 23 \<le> rhe (x / spacing i)" by (rule rhe_ge)
      then have "(2 ^ 23 :: real) \<le> of_int (rhe (x / spacing i))" by simp
      then have "2 ^ 23 * spacing i \<le> of_int (rhe (x / spacing i)) * spacing i" using spacing_pos [of i] by simp
      then have "2 ^ 24 * spacing ia \<le> roundmag x" using q by (simp add: roundmag_def found(2))
      then show ?thesis using alt by simp
    qed
  next
    case huge
    have "of_int (2 ^ 24) \<le> x / spacing 253"
      using huge(2) spacing_253 spacing_pos [of 253] by (simp add: pos_le_divide_eq mult.commute)
    then have "2 ^ 24 \<le> rhe (x / spacing 253)" by (rule rhe_ge)
    then have "(2 ^ 24 :: real) \<le> of_int (rhe (x / spacing 253))" by simp
    then have "2 ^ 24 * spacing 253 \<le> of_int (rhe (x / spacing 253)) * spacing 253"
      using spacing_pos [of 253] by simp
    then have "2 ^ 128 \<le> roundmag x" using spacing_253 by (simp add: roundmag_def huge(1))
    then show ?thesis using representable_lt [OF assms(3)] by simp
  qed
qed

lemma round32_between:
  assumes "representable a" "representable b" "a \<le> x" "x \<le> b"
  shows "\<exists>y. round32 x = Finite y \<and> a \<le> y \<and> y \<le> b"
proof (cases "x < 0")
  case False
  then have x0: "0 \<le> x" by simp
  have u: "roundmag x \<le> b" using roundmag_le [OF x0 assms(4) assms(2)] .
  have l: "a \<le> roundmag x"
  proof (cases "0 \<le> a")
    case True
    then show ?thesis using roundmag_ge [OF _ assms(3) assms(1)] by simp
  next
    case False
    then show ?thesis using roundmag_nonneg [OF x0] by simp
  qed
  have "roundmag x < 2 ^ 128" using u representable_lt [OF assms(2)] by simp
  then show ?thesis using x0 u l by (simp add: round32_roundmag)
next
  case True
  then have x0: "0 \<le> - x" and ax: "\<bar>x\<bar> = - x" by simp_all
  have na: "representable (- a)" and nb: "representable (- b)"
    using assms(1,2) by (simp_all add: representable_neg)
  have u: "roundmag (- x) \<le> - a" using roundmag_le [OF x0 _ na] assms(3) by simp
  have l: "- b \<le> roundmag (- x)"
  proof (cases "0 \<le> - b")
    case True
    then show ?thesis using roundmag_ge [OF _ _ nb] assms(4) by simp
  next
    case False
    then show ?thesis using roundmag_nonneg [OF x0] by simp
  qed
  have "roundmag (- x) < 2 ^ 128" using u representable_lt [OF na] by simp
  then show ?thesis using True u l by (simp add: round32_roundmag ax)
qed

lemma round32_representable: "representable r \<Longrightarrow> round32 r = Finite r"
  by (simp add: representable_def)

text \<open>Doubling is exact.\<close>

lemma representable_double:
  assumes "representable r" "\<bar>r\<bar> < 2 ^ 127"
  shows "representable (r * 2)"
proof -
  have "representable \<bar>r\<bar>" using assms(1) representable_neg [of r] by (cases "r < 0") simp_all
  from representable_canonical [OF this] obtain i n where
    c: "i < 254" "0 \<le> n" "n < 2 ^ 24" "i = 0 \<or> 2 ^ 23 \<le> n" "\<bar>r\<bar> = of_int n * spacing i"
    by auto
  have "representable (\<bar>r\<bar> * 2)"
  proof (cases "i = 253")
    case True
    have "of_int n * spacing 253 < 2 ^ 127" using assms(2) c(5) True by simp
    then have "(of_int n :: real) * 2 ^ 104 < 2 ^ 23 * 2 ^ 104" by (simp add: spacing_def)
    then have "(of_int n :: real) < 2 ^ 23" by (simp only: mult_less_cancel_right) simp
    then have "n < 2 ^ 23" by simp
    then have "\<bar>2 * n\<bar> < 2 ^ 24" using c(2) by simp
    from representable_mult [OF c(1) this] show ?thesis by (simp add: c(5) mult_ac)
  next
    case False
    then have s: "Suc i < 254" using c(1) by simp
    have "\<bar>n\<bar> < 2 ^ 24" using c(2,3) by simp
    from representable_mult [OF s this] show ?thesis by (simp add: c(5) spacing_Suc mult_ac)
  qed
  then show ?thesis using representable_neg [of "r * 2"] by (cases "r < 0") simp_all
qed

lemma spacing_227: "spacing 227 = 2 ^ 78"
  by (simp add: spacing_def)

text \<open>
  The reflection at the upper face, in binary32: from a representable coordinate beyond the
  face, but at most the width of the volume beyond it, the three operations
  \<open>c - (c - G) * 2\<close> return into the volume.
\<close>

lemma reflect_upper:
  assumes "representable G" "0 < G" "G \<le> 2 ^ 100" "representable c" "G < c" "c \<le> 3 * G"
  shows "\<exists>d y. round32 (c - G) = Finite d \<and> round32 (d * 2) = Finite (d * 2)
           \<and> round32 (c - d * 2) = Finite y \<and> - G \<le> y \<and> y \<le> G"
proof -
  from representable_canonical [OF assms(1)] assms(2) obtain i g where
    cg: "i < 254" "0 \<le> g" "g < 2 ^ 24" "i = 0 \<or> 2 ^ 23 \<le> g" "G = of_int g * spacing i"
    by auto
  have i227: "i < 227"
  proof (rule ccontr)
    assume "\<not> i < 227"
    then have i: "227 \<le> i" by simp
    then have "2 ^ 78 \<le> spacing i" using spacing_mono [of 227 i] spacing_227 by simp
    moreover have "(2 ^ 23 :: real) \<le> of_int g" using cg(4) i by auto
    ultimately have "2 ^ 23 * 2 ^ 78 \<le> of_int g * spacing i"
      by (intro mult_mono) simp_all
    then show False using assms(3) cg(5) by simp
  qed
  from representable_canonical [OF assms(4)] assms(2,5) obtain ic nc where
    cc: "ic < 254" "0 \<le> nc" "nc < 2 ^ 24" "ic = 0 \<or> 2 ^ 23 \<le> nc" "c = of_int nc * spacing ic"
    by auto
  have "i \<le> ic"
  proof (rule ccontr)
    assume "\<not> i \<le> ic"
    then have s: "Suc ic \<le> i" by simp
    then have "2 * spacing ic \<le> spacing i" using spacing_mono [of "Suc ic" i] by (simp add: spacing_Suc)
    moreover have "(2 ^ 23 :: real) \<le> of_int g" using cg(4) s by auto
    ultimately have "2 ^ 23 * (2 * spacing ic) \<le> of_int g * spacing i"
      using spacing_pos [of ic] by (intro mult_mono) simp_all
    moreover have "of_int nc * spacing ic < 2 ^ 24 * spacing ic" using cc(3) spacing_pos [of ic] by simp
    ultimately show False using assms(5) cg(5) cc(5) by simp
  qed
  then obtain k where k: "ic = i + k" using le_Suc_ex by blast
  define C where "C = nc * 2 ^ k"
  have c: "c = of_int C * spacing i" by (simp add: cc(5) k spacing_add C_def)
  have Ceven: "even C" if "2 ^ 24 \<le> C"
  proof (cases k)
    case 0
    then show ?thesis using that cc(3) by (simp add: C_def)
  next
    case (Suc k')
    then show ?thesis by (simp add: C_def)
  qed
  have "of_int g * spacing i < of_int C * spacing i" using assms(5) cg(5) c by simp
  then have "(of_int g :: real) < of_int C" using spacing_pos [of i] by simp
  then have gC: "g < C" by simp
  have "of_int C * spacing i \<le> of_int (3 * g) * spacing i" using assms(6) cg(5) c by simp
  then have "(of_int C :: real) \<le> of_int (3 * g)" using spacing_pos [of i] by simp
  then have C3: "C \<le> 3 * g" by (simp only: of_int_le_iff)
  define D where "D = C - g"
  have delta: "c - G = of_int D * spacing i" by (simp add: c cg(5) D_def algebra_simps)
  have D25: "D < 2 ^ 25" using C3 cg(3) by (simp add: D_def)
  have D0: "0 < D" using gC by (simp add: D_def)
  have "\<exists>D'. round32 (c - G) = Finite (of_int D' * spacing i) \<and> - g \<le> C - 2 * D' \<and> C - 2 * D' \<le> g"
  proof (cases "D < 2 ^ 24")
    case True
    then have "round32 (c - G) = Finite (of_int D * spacing i)"
      unfolding delta using D0 cg(1) by (intro round32_exact) simp_all
    moreover have "- g \<le> C - 2 * D \<and> C - 2 * D \<le> g" using gC C3 by (simp add: D_def)
    ultimately show ?thesis by blast
  next
    case False
    then have D24: "2 ^ 24 \<le> D" by simp
    have si: "Suc i < 254" using i227 by simp
    show ?thesis
    proof (cases "even D")
      case True
      then obtain h where h: "D = 2 * h" by (elim evenE)
      have "\<bar>h\<bar> < 2 ^ 24" using h D25 D0 by simp
      from round32_exact [OF si this] have "round32 (c - G) = Finite (of_int D * spacing i)"
        by (simp add: delta h spacing_Suc mult_ac)
      moreover have "- g \<le> C - 2 * D \<and> C - 2 * D \<le> g" using gC C3 by (simp add: D_def)
      ultimately show ?thesis by blast
    next
      case False
      then obtain h where h: "D = 2 * h + 1" by (elim oddE)
      define n where "n = (if even h then h else h + 1)"
      have pos: "0 \<le> of_int D * spacing i" using D0 spacing_pos [of i] by simp
      have q: "quantum (of_int D * spacing i) = spacing (Suc i)"
      proof (rule quantum_eq [OF si])
        have "(of_int D :: real) < 2 ^ 25" using D25 by simp
        then show "of_int D * spacing i < 2 ^ 24 * spacing (Suc i)" using spacing_pos [of i] by (simp add: spacing_Suc)
        have "(2 ^ 24 :: real) \<le> of_int D" using D24 by simp
        then show "Suc i = 0 \<or> 2 ^ 23 * spacing (Suc i) \<le> of_int D * spacing i"
          using spacing_pos [of i] by (simp add: spacing_Suc)
      qed
      have "of_int D * spacing i / spacing (Suc i) = of_int h + 1 / 2"
        using spacing_pos [of i] by (simp add: h spacing_Suc field_simps)
      then have "rhe (of_int D * spacing i / spacing (Suc i)) = n"
        using rhe_half [of h] by (simp add: n_def)
      then have rm: "roundmag (of_int D * spacing i) = of_int (2 * n) * spacing i"
        by (simp add: roundmag_def q spacing_Suc)
      have n24: "n \<le> 2 ^ 24" using h D25 by (simp add: n_def)
      have n0: "0 \<le> n" using h D0 by (simp add: n_def)
      have "spacing i \<le> spacing 227" using i227 by (intro spacing_mono) simp
      then have "of_int (2 * n) * spacing i \<le> 2 ^ 25 * 2 ^ 78"
        using n24 n0 spacing_227 spacing_pos [of i] by (intro mult_mono) simp_all
      then have fin: "roundmag (of_int D * spacing i) < 2 ^ 128" using rm by simp
      have "round32 (c - G) = Finite (of_int (2 * n) * spacing i)"
        unfolding delta round32_roundmag using pos fin rm by simp
      moreover have "- g \<le> C - 2 * (2 * n) \<and> C - 2 * (2 * n) \<le> g"
      proof (cases "even h")
        case True
        then have "n = h" by (simp add: n_def)
        then show ?thesis using h gC C3 D24 by (simp add: D_def)
      next
        case False
        then have nh: "n = h + 1" by (simp add: n_def)
        have "2 ^ 24 \<le> C" using D24 cg(2) by (simp add: D_def)
        then have ec: "even C" by (rule Ceven)
        have "C \<le> 3 * g - 2" using ec False h C3 D_def by presburger
        then show ?thesis using nh h gC by (simp add: D_def)
      qed
      ultimately show ?thesis by blast
    qed
  qed
  then obtain D' where
    r1: "round32 (c - G) = Finite (of_int D' * spacing i)" and
    lo: "- g \<le> C - 2 * D'" and hi: "C - 2 * D' \<le> g"
    by blast
  define d where "d = of_int D' * spacing i"
  have rd: "representable d" using r1 round32_Finite_representable by (simp add: d_def)
  have "\<bar>D'\<bar> \<le> 2 ^ 26" using lo hi gC C3 cg(2,3) by simp
  then have "\<bar>of_int D' :: real\<bar> \<le> 2 ^ 26" by (metis of_int_abs of_int_le_numeral_power_cancel_iff)
  moreover have "spacing i \<le> spacing 227" using i227 by (intro spacing_mono) simp
  ultimately have "\<bar>of_int D'\<bar> * spacing i \<le> 2 ^ 26 * 2 ^ 78"
    using spacing_227 spacing_pos [of i] by (intro mult_mono) simp_all
  then have "\<bar>d\<bar> < 2 ^ 127" using spacing_pos [of i] by (simp add: d_def abs_mult)
  from representable_double [OF rd this] have r2: "round32 (d * 2) = Finite (d * 2)"
    by (rule round32_representable)
  have e: "c - d * 2 = of_int (C - 2 * D') * spacing i" by (simp add: c d_def algebra_simps)
  have "of_int (- g) * spacing i \<le> of_int (C - 2 * D') * spacing i"
    using lo spacing_pos [of i] by (simp only: mult_le_cancel_right of_int_le_iff, simp)
  then have elo: "- G \<le> c - d * 2" by (simp add: e cg(5))
  have "of_int (C - 2 * D') * spacing i \<le> of_int g * spacing i"
    using hi spacing_pos [of i] by (simp only: mult_le_cancel_right of_int_le_iff, simp)
  then have ehi: "c - d * 2 \<le> G" by (simp add: e cg(5))
  have "representable (- G)" using assms(1) by (simp add: representable_neg)
  from round32_between [OF this assms(1) elo ehi] obtain y where
    "round32 (c - d * 2) = Finite y" "- G \<le> y" "y \<le> G"
    by blast
  then show ?thesis using r1 r2 d_def by blast
qed

lemma spacing_149_int: "real_of_int n = of_int n * spacing 149"
  by (simp add: spacing_149)

lemma round32_int: "\<bar>n\<bar> < 2 ^ 24 \<Longrightarrow> round32 (real_of_int n) = Finite (real_of_int n)"
  using round32_exact [of 149 n] by (simp add: spacing_149)

lemma round32_pow24: "round32 (2 ^ 24) = Finite (2 ^ 24)"
proof -
  have "spacing 150 = 2" by (simp add: spacing_def)
  then show ?thesis using round32_exact [of 150 "2 ^ 23"] by simp
qed

lemma float_of_int_exact:
  assumes "0 \<le> n" "n \<le> 2 ^ 24"
  shows "float_of_int n = Finite (real_of_int n)"
proof (cases "n = 2 ^ 24")
  case True
  then show ?thesis using round32_pow24 by (simp add: float_of_int_def)
next
  case False
  then have "\<bar>n\<bar> < 2 ^ 24" using assms by simp
  then show ?thesis by (simp add: float_of_int_def round32_int)
qed

lemma roundmag_0: "roundmag 0 = 0"
  using roundmag_exact [of 0 0] by simp

lemma round32_minus: "round32 (- x) = fneg (round32 x)"
proof -
  consider "x < 0" | "x = 0" | "0 < x" by linarith
  then show ?thesis
    by cases (simp_all add: round32_roundmag roundmag_0)
qed

lemma fadd_Finite: "fadd a b = Finite r \<Longrightarrow> representable r"
  by (cases a; cases b) (simp_all add: round32_Finite_representable)

lemma fmul_minus1: "binary32 d \<Longrightarrow> fmul d (Finite (- 1)) = fneg d"
  by (cases d) (simp_all add: binary32_def round32_minus round32_representable)

lemma round32_half: "\<bar>X\<bar> < 2 ^ 24 \<Longrightarrow> round32 (of_int X / 2) = Finite (of_int X / 2)"
proof -
  have e: "real_of_int X * spacing 148 = real_of_int X / 2" by (simp add: spacing_def)
  show "\<bar>X\<bar> < 2 ^ 24 \<Longrightarrow> round32 (of_int X / 2) = Finite (of_int X / 2)"
    using round32_exact [of 148 X] unfolding e by simp
qed

lemma round32_values:
  "round32 0 = Finite 0" "round32 1 = Finite 1" "round32 2 = Finite 2" "round32 6 = Finite 6"
  "round32 7 = Finite 7" "round32 8 = Finite 8" "round32 32 = Finite 32" "round32 39 = Finite 39"
  "round32 64 = Finite 64" "round32 (- 25) = Finite (- 25)" "round32 (1 / 2) = Finite (1 / 2)"
  "round32 (- (1 / 2)) = Finite (- (1 / 2))"
  using round32_int [of 0] round32_int [of 1] round32_int [of 2] round32_int [of 6]
    round32_int [of 7] round32_int [of 8] round32_int [of 32] round32_int [of 39]
    round32_int [of 64] round32_int [of "- 25"] round32_half [of 1] round32_half [of "- 1"]
  by simp_all

lemma quantum_huge: "2 ^ 128 \<le> x \<Longrightarrow> quantum x = spacing 253"
proof (cases x rule: quantum_cases)
  case (found i)
  assume "2 ^ 128 \<le> x"
  then show ?thesis using found(1,3) spacing_le_253 [of i] by linarith
next
  case huge
  then show ?thesis by simp
qed

lemma round32_tie: "round32 16777217 = Finite 16777216"
proof -
  have q: "quantum 16777217 = 2"
    using quantum_eq [of 150 16777217] by (simp add: spacing_def)
  have "rhe (of_int 8388608 + 1 / 2) = 8388608"
    by (simp only: rhe_half) simp
  then have r: "rhe (16777217 / 2) = 8388608" by simp
  show ?thesis by (simp add: round32_def Let_def q r)
qed

lemma round32_overflow: "round32 (2 ^ 129) = PInf"
proof -
  have q: "quantum (2 ^ 129) = 2 ^ 104"
    using quantum_huge [of "2 ^ 129"] by (simp add: spacing_def)
  have "rhe (of_int (2 ^ 25)) = 2 ^ 25" by (rule rhe_of_int)
  moreover have "(2::real) ^ 129 / 2 ^ 104 = of_int (2 ^ 25)" by simp
  ultimately have r: "rhe (2 ^ 129 / 2 ^ 104) = 2 ^ 25" by simp
  show ?thesis using q r by (simp add: round32_def Let_def)
qed

lemma round32_big: "round32 (- (2 ^ 127)) = Finite (- (2 ^ 127))"
  using round32_exact [of 253 "- (2 ^ 23)"] by (simp add: spacing_def)

lemma round32_values_far:
  "round32 16777209 = Finite 16777209" "round32 33554418 = Finite 33554418"
  "round32 (- 16777202) = Finite (- 16777202)" "round32 (- 1) = Finite (- 1)"
  using round32_int [of 16777209] round32_exact [of 150 16777209] round32_int [of "- 16777202"]
    round32_int [of "- 1"]
  by (simp_all add: spacing_def)

subsection \<open>Facts about Light::UpdateLights\<close>

lemma ClampCoordinate_dir:
  assumes "binary32 d"
  shows "snd (ClampCoordinate c d (Finite (- G)) (Finite G))
           = (if flt c (Finite (- G)) \<or> flt (Finite G) c then fneg d else d)"
  using assms by (simp add: ClampCoordinate_def fmul_minus1)

lemma ClampCoordinate_keep:
  "\<not> (flt c (Finite (- G)) \<or> flt (Finite G) c) \<Longrightarrow>
     fst (ClampCoordinate c d (Finite (- G)) (Finite G)) = c"
  by (simp add: ClampCoordinate_def)

lemma ClampCoordinate_reflected:
  "fst (ClampCoordinate c d (Finite (- real_of_int G)) (Finite (real_of_int G))) = reflected G c"
  by (simp add: ClampCoordinate_def reflected_def)

lemma ClampCoordinate_within:
  assumes "representable G" "0 \<le> G" "G \<le> 2 ^ 100" "representable r" "\<bar>r\<bar> \<le> 3 * G"
  shows "withinBound G (fst (ClampCoordinate (Finite r) d (fneg (Finite G)) (Finite G)))"
proof -
  consider (below) "r < - G" | (above) "G < r" | (inside) "- G \<le> r" "r \<le> G" by linarith
  then show ?thesis
  proof cases
    case below
    then have G0: "0 < G" using assms(2,5) by linarith
    have rn: "representable (- r)" using assms(4) by (simp add: representable_neg)
    have p: "G < - r" "- r \<le> 3 * G" using below assms(5) by linarith+
    from reflect_upper [OF assms(1) G0 assms(3) rn p] obtain d' y where
      r: "round32 (- r - G) = Finite d'" "round32 (d' * 2) = Finite (d' * 2)"
         "round32 (- r - d' * 2) = Finite y" "- G \<le> y" "y \<le> G"
      by blast
    have "r + d' * 2 = - (- r - d' * 2)" by simp
    then have "round32 (r + d' * 2) = fneg (round32 (- r - d' * 2))"
      by (simp only: round32_minus)
    then have "round32 (r + d' * 2) = Finite (- y)" using r(3) by simp
    moreover have "- G + - r = - r - G" by simp
    then have "round32 (- G + - r) = Finite d'" using r(1) by (simp only:)
    ultimately have "fst (ClampCoordinate (Finite r) d (fneg (Finite G)) (Finite G)) = Finite (- y)"
      using below r(2) by (simp add: ClampCoordinate_def fsub_def)
    then show ?thesis using r(4,5) by (simp add: withinBound_def)
  next
    case above
    then have G0: "0 < G" using assms(2,5) by linarith
    have p: "r \<le> 3 * G" using above assms(5) by linarith
    from reflect_upper [OF assms(1) G0 assms(3) assms(4) above p] obtain d' y where
      r: "round32 (r - G) = Finite d'" "round32 (d' * 2) = Finite (d' * 2)"
         "round32 (r - d' * 2) = Finite y" "- G \<le> y" "y \<le> G"
      by blast
    have "\<not> r < - G" using above assms(2) by linarith
    then have "fst (ClampCoordinate (Finite r) d (fneg (Finite G)) (Finite G)) = Finite y"
      using above r(1,2,3) by (simp add: ClampCoordinate_def fsub_def)
    then show ?thesis using r(4,5) by (simp add: withinBound_def)
  next
    case inside
    then have "fst (ClampCoordinate (Finite r) d (fneg (Finite G)) (Finite G)) = Finite r"
      by (simp add: ClampCoordinate_def)
    then show ?thesis using inside by (simp add: withinBound_def)
  qed
qed

lemma ClampCoordinate_reach:
  assumes "0 \<le> GridDim" "GridDim \<le> 2 ^ 24" "withinBound (3 * real_of_int GridDim) (fadd a b)"
  shows "withinBound (real_of_int GridDim)
           (fst (ClampCoordinate (fadd a b) d (fneg (Finite (real_of_int GridDim)))
                   (Finite (real_of_int GridDim))))"
proof -
  from assms(3) obtain r where r: "fadd a b = Finite r" "\<bar>r\<bar> \<le> 3 * real_of_int GridDim"
    by (auto simp add: withinBound_def split: float32.splits)
  have rr: "representable r" using r(1) by (rule fadd_Finite)
  have "float_of_int GridDim = Finite (real_of_int GridDim)"
    using assms(1,2) by (rule float_of_int_exact)
  then have rg: "representable (real_of_int GridDim)"
    by (simp add: float_of_int_def representable_def)
  have "real_of_int GridDim \<le> 2 ^ 24" using assms(2) by (metis of_int_le_numeral_power_cancel_iff)
  then have le: "real_of_int GridDim \<le> 2 ^ 100" by simp
  have g0: "0 \<le> real_of_int GridDim" using assms(1) by simp
  show ?thesis
    unfolding r(1) using ClampCoordinate_within [OF rg g0 le rr r(2)] .
qed

lemma updateLight_eq:
  assumes "0 \<le> GridDim" "GridDim \<le> 2 ^ 24"
  shows "updateLight GridDim t l d =
     (l\<lparr>Location :=
          \<lparr>x32 = fst (ClampCoordinate (x32 (movedLocation t l d)) (x32 d)
                         (Finite (- real_of_int GridDim)) (Finite (real_of_int GridDim))),
           y32 = fst (ClampCoordinate (y32 (movedLocation t l d)) (y32 d)
                         (Finite (- real_of_int GridDim)) (Finite (real_of_int GridDim))),
           z32 = fst (ClampCoordinate (z32 (movedLocation t l d)) (z32 d)
                         (Finite (- real_of_int GridDim)) (Finite (real_of_int GridDim)))\<rparr>\<rparr>,
      \<lparr>x32 = snd (ClampCoordinate (x32 (movedLocation t l d)) (x32 d)
                         (Finite (- real_of_int GridDim)) (Finite (real_of_int GridDim))),
       y32 = snd (ClampCoordinate (y32 (movedLocation t l d)) (y32 d)
                         (Finite (- real_of_int GridDim)) (Finite (real_of_int GridDim))),
       z32 = snd (ClampCoordinate (z32 (movedLocation t l d)) (z32 d)
                         (Finite (- real_of_int GridDim)) (Finite (real_of_int GridDim)))\<rparr>)"
  by (simp add: updateLight_def Let_def split_beta movedLocation_def
      float_of_int_exact [OF assms])

lemma updateLight_reach:
  assumes "0 \<le> GridDim" "GridDim \<le> 2 ^ 24" "withinReach GridDim (movedLocation t l d)"
  shows "inVolume GridDim (Location (fst (updateLight GridDim t l d)))"
proof -
  have w: "withinBound (3 * real_of_int GridDim) (fadd (x32 (Location l)) (fmul (x32 d) t))"
    "withinBound (3 * real_of_int GridDim) (fadd (y32 (Location l)) (fmul (y32 d) t))"
    "withinBound (3 * real_of_int GridDim) (fadd (z32 (Location l)) (fmul (z32 d) t))"
    using assms(3) by (simp_all add: withinReach_def movedLocation_def)
  show ?thesis
    unfolding updateLight_eq [OF assms(1,2)]
    using ClampCoordinate_reach [OF assms(1,2) w(1), of "x32 d"]
      ClampCoordinate_reach [OF assms(1,2) w(2), of "y32 d"]
      ClampCoordinate_reach [OF assms(1,2) w(3), of "z32 d"]
    by (simp add: inVolume_def movedLocation_def)
qed

lemma updateLight_dir:
  assumes "0 \<le> GridDim" "GridDim \<le> 2 ^ 24" "binary32_3 d"
  shows "snd (updateLight GridDim t l d) =
           \<lparr>x32 = (if crossed GridDim (x32 (movedLocation t l d)) then fneg (x32 d) else x32 d),
            y32 = (if crossed GridDim (y32 (movedLocation t l d)) then fneg (y32 d) else y32 d),
            z32 = (if crossed GridDim (z32 (movedLocation t l d)) then fneg (z32 d) else z32 d)\<rparr>"
proof -
  have b: "binary32 (x32 d)" "binary32 (y32 d)" "binary32 (z32 d)"
    using assms(3) by (simp_all add: binary32_3_def)
  show ?thesis
    unfolding updateLight_eq [OF assms(1,2)] crossed_def snd_conv
      ClampCoordinate_dir [OF b(1)] ClampCoordinate_dir [OF b(2)] ClampCoordinate_dir [OF b(3)]
    by (rule refl)
qed

lemma updateLight_reflected:
  assumes "0 \<le> GridDim" "GridDim \<le> 2 ^ 24"
  shows "fst (updateLight GridDim t l d) =
           l\<lparr>Location := \<lparr>x32 = reflected GridDim (x32 (movedLocation t l d)),
                            y32 = reflected GridDim (y32 (movedLocation t l d)),
                            z32 = reflected GridDim (z32 (movedLocation t l d))\<rparr>\<rparr>"
  unfolding updateLight_eq [OF assms(1,2)] fst_conv ClampCoordinate_reflected
  by (rule refl)

lemma UpdateLights_from_nth:
  assumes "n = nat (m_LightsCount L)" "n \<le> length (m_Lights L)" "n \<le> length (m_LightMoveDirs L)"
    and "k \<le> n"
  shows "\<exists>L'. UpdateLights_from G t (int k) L = Inr L'
           \<and> m_LightsCount L' = m_LightsCount L
           \<and> length (m_Lights L') = length (m_Lights L)
           \<and> length (m_LightMoveDirs L') = length (m_LightMoveDirs L)
           \<and> (\<forall>i. m_Lights L' ! i =
                  (if k \<le> i \<and> i < n
                   then fst (updateLight G t (m_Lights L ! i) (m_LightMoveDirs L ! i))
                   else m_Lights L ! i))
           \<and> (\<forall>i. m_LightMoveDirs L' ! i =
                  (if k \<le> i \<and> i < n
                   then snd (updateLight G t (m_Lights L ! i) (m_LightMoveDirs L ! i))
                   else m_LightMoveDirs L ! i))"
  using assms
proof (induction "n - k" arbitrary: k L)
  case 0
  then have "\<not> int k < m_LightsCount L" by simp
  then have "UpdateLights_from G t (int k) L = Inr L"
    by (subst UpdateLights_from.simps) simp
  then show ?case using 0 by auto
next
  case (Suc m)
  then have kn: "k < n" by simp
  define l' where "l' = fst (updateLight G t (m_Lights L ! k) (m_LightMoveDirs L ! k))"
  define d' where "d' = snd (updateLight G t (m_Lights L ! k) (m_LightMoveDirs L ! k))"
  define L1 where "L1 = L\<lparr>m_Lights := (m_Lights L)[k := l'], m_LightMoveDirs := (m_LightMoveDirs L)[k := d']\<rparr>"
  have cond: "int k < m_LightsCount L" using kn Suc.prems(1) by simp
  have inr: "\<not> (int k < 0 \<or> nat (int k) \<ge> length (m_Lights L) \<or> nat (int k) \<ge> length (m_LightMoveDirs L))"
    using kn Suc.prems by simp
  have unfold: "UpdateLights_from G t (int k) L = UpdateLights_from G t (int (Suc k)) L1"
    using cond inr
    by (subst UpdateLights_from.simps)
       (simp add: L1_def l'_def d'_def split_beta Let_def add.commute)
  have p: "m = n - Suc k" "n = nat (m_LightsCount L1)" "n \<le> length (m_Lights L1)"
    "n \<le> length (m_LightMoveDirs L1)" "Suc k \<le> n"
    using Suc.hyps(2) Suc.prems kn by (simp_all add: L1_def)
  from Suc.hyps(1) [OF p] obtain L' where
    r: "UpdateLights_from G t (int (Suc k)) L1 = Inr L'"
    and c: "m_LightsCount L' = m_LightsCount L1"
    and ll: "length (m_Lights L') = length (m_Lights L1)"
    and ld: "length (m_LightMoveDirs L') = length (m_LightMoveDirs L1)"
    and nl: "\<forall>i. m_Lights L' ! i =
                  (if Suc k \<le> i \<and> i < n
                   then fst (updateLight G t (m_Lights L1 ! i) (m_LightMoveDirs L1 ! i))
                   else m_Lights L1 ! i)"
    and nd: "\<forall>i. m_LightMoveDirs L' ! i =
                  (if Suc k \<le> i \<and> i < n
                   then snd (updateLight G t (m_Lights L1 ! i) (m_LightMoveDirs L1 ! i))
                   else m_LightMoveDirs L1 ! i)"
    by blast
  have kl: "k < length (m_Lights L)" "k < length (m_LightMoveDirs L)"
    using kn Suc.prems by simp_all
  have nl': "\<forall>i. m_Lights L' ! i =
                  (if k \<le> i \<and> i < n
                   then fst (updateLight G t (m_Lights L ! i) (m_LightMoveDirs L ! i))
                   else m_Lights L ! i)"
  proof
    fix i
    show "m_Lights L' ! i =
                  (if k \<le> i \<and> i < n
                   then fst (updateLight G t (m_Lights L ! i) (m_LightMoveDirs L ! i))
                   else m_Lights L ! i)"
      using nl [rule_format, of i] kl kn
      by (cases "i = k") (auto simp add: L1_def l'_def)
  qed
  have nd': "\<forall>i. m_LightMoveDirs L' ! i =
                  (if k \<le> i \<and> i < n
                   then snd (updateLight G t (m_Lights L ! i) (m_LightMoveDirs L ! i))
                   else m_LightMoveDirs L ! i)"
  proof
    fix i
    show "m_LightMoveDirs L' ! i =
                  (if k \<le> i \<and> i < n
                   then snd (updateLight G t (m_Lights L ! i) (m_LightMoveDirs L ! i))
                   else m_LightMoveDirs L ! i)"
      using nd [rule_format, of i] kl kn
      by (cases "i = k") (auto simp add: L1_def d'_def)
  qed
  show ?case
    using unfold r c ll ld nl' nd' by (simp add: L1_def)
qed

text \<open>
  Two runs on which \<^verbatim>\<open>float\<close> and exact arithmetic part. From \<open>x = 2^24\<close> a step of one
  unit is lost in the rounding of the sum, and the reflection at the face \<open>x = 7\<close> gives
  \<open>-16777202\<close>; in exact arithmetic it gives \<open>-16777203\<close>. With a direction of \<open>2^127\<close>
  and a frame of 4 seconds the product is an infinity, and the reflection is not a number.
\<close>

lemma UpdateLights_rounds:
  "UpdateLights 7 (Finite 1) lightsFar =
     Inr (lightsFar\<lparr>m_Lights := [\<lparr>Location = \<lparr>x32 = Finite (- 16777202), y32 = Finite 0, z32 = Finite 0\<rparr>,
                                   Size = Finite 1,
                                   Color = \<lparr>x32 = Finite 1, y32 = Finite 1, z32 = Finite 1\<rparr>\<rparr>],
                     m_LightMoveDirs := [\<lparr>x32 = Finite (- 1), y32 = Finite 0, z32 = Finite 0\<rparr>]\<rparr>)"
  by (simp add: UpdateLights_def UpdateLights_from.simps lightsFar_def updateLight_def
      ClampCoordinate_def Let_def float_of_int_def fsub_def
      round32_values round32_tie round32_values_far)

lemma UpdateLights_overflows:
  "UpdateLights 7 (Finite 4) lightsFast =
     Inr (lightsFast\<lparr>m_Lights := [\<lparr>Location = \<lparr>x32 = NaN, y32 = Finite 0, z32 = Finite 0\<rparr>,
                                   Size = Finite 1,
                                   Color = \<lparr>x32 = Finite 1, y32 = Finite 1, z32 = Finite 1\<rparr>\<rparr>],
                     m_LightMoveDirs := [\<lparr>x32 = Finite (- (2 ^ 127)), y32 = Finite 0, z32 = Finite 0\<rparr>]\<rparr>)"
  by (simp add: UpdateLights_def UpdateLights_from.simps lightsFast_def updateLight_def
      ClampCoordinate_def Let_def float_of_int_def fsub_def
      round32_values round32_overflow [simplified] round32_big [simplified])

text \<open>
  C5, as amended. With a grid dimension from 0 to \<open>2^24\<close>, the first \<^verbatim>\<open>m_LightsCount\<close>
  lights and move directions in place, and move directions that a \<^verbatim>\<open>float\<close> can hold,
  \<^verbatim>\<open>UpdateLights\<close> returns, and for each of these lights: when no coordinate of the moved
  location (location plus direction times elapsed time, as \<^verbatim>\<open>float\<close> computes it) is
  further than \<open>3 * GridDim\<close> from the origin, the new location lies within
  \<open>[-GridDim, +GridDim]^3\<close>, whatever the roundings; the components of its move direction
  that belong to coordinates of the moved location beyond a face of the volume are negated,
  the others kept; and the light is the one before with the new location, which is the
  moved location with every coordinate beyond a face reflected once at that face, in
  \<^verbatim>\<open>float\<close> arithmetic, and the other coordinates as moved.
\<close>

theorem UpdateLights_reach:
  assumes "0 \<le> GridDim" "GridDim \<le> 2 ^ 24"
    and "nat (m_LightsCount L) \<le> length (m_Lights L)"
    and "nat (m_LightsCount L) \<le> length (m_LightMoveDirs L)"
    and "\<forall>i < nat (m_LightsCount L). binary32_3 (m_LightMoveDirs L ! i)"
  shows "\<exists>L'. UpdateLights GridDim t L = Inr L'
           \<and> (\<forall>i < nat (m_LightsCount L).
                 (withinReach GridDim (movedLocation t (m_Lights L ! i) (m_LightMoveDirs L ! i))
                    \<longrightarrow> inVolume GridDim (Location (m_Lights L' ! i)))
               \<and> m_LightMoveDirs L' ! i =
                   \<lparr>x32 = (if crossed GridDim (x32 (movedLocation t (m_Lights L ! i) (m_LightMoveDirs L ! i)))
                           then fneg (x32 (m_LightMoveDirs L ! i)) else x32 (m_LightMoveDirs L ! i)),
                    y32 = (if crossed GridDim (y32 (movedLocation t (m_Lights L ! i) (m_LightMoveDirs L ! i)))
                           then fneg (y32 (m_LightMoveDirs L ! i)) else y32 (m_LightMoveDirs L ! i)),
                    z32 = (if crossed GridDim (z32 (movedLocation t (m_Lights L ! i) (m_LightMoveDirs L ! i)))
                           then fneg (z32 (m_LightMoveDirs L ! i)) else z32 (m_LightMoveDirs L ! i))\<rparr>
               \<and> m_Lights L' ! i =
                   (m_Lights L ! i)
                     \<lparr>Location :=
                        \<lparr>x32 = reflected GridDim (x32 (movedLocation t (m_Lights L ! i) (m_LightMoveDirs L ! i))),
                         y32 = reflected GridDim (y32 (movedLocation t (m_Lights L ! i) (m_LightMoveDirs L ! i))),
                         z32 = reflected GridDim (z32 (movedLocation t (m_Lights L ! i) (m_LightMoveDirs L ! i)))\<rparr>\<rparr>)"
proof -
  from UpdateLights_from_nth [OF refl assms(3) assms(4), of 0 GridDim t] obtain L' where
    r: "UpdateLights_from GridDim t (int 0) L = Inr L'"
    and nl: "\<forall>i. m_Lights L' ! i =
                  (if 0 \<le> i \<and> i < nat (m_LightsCount L)
                   then fst (updateLight GridDim t (m_Lights L ! i) (m_LightMoveDirs L ! i))
                   else m_Lights L ! i)"
    and nd: "\<forall>i. m_LightMoveDirs L' ! i =
                  (if 0 \<le> i \<and> i < nat (m_LightsCount L)
                   then snd (updateLight GridDim t (m_Lights L ! i) (m_LightMoveDirs L ! i))
                   else m_LightMoveDirs L ! i)"
    by blast
  have "UpdateLights GridDim t L = Inr L'"
    using r by (simp add: UpdateLights_def)
  moreover have "\<forall>i < nat (m_LightsCount L).
      m_Lights L' ! i = fst (updateLight GridDim t (m_Lights L ! i) (m_LightMoveDirs L ! i))
    \<and> m_LightMoveDirs L' ! i = snd (updateLight GridDim t (m_Lights L ! i) (m_LightMoveDirs L ! i))"
    using nl nd by simp
  ultimately show ?thesis
    using updateLight_reach [OF assms(1,2)] updateLight_dir [OF assms(1,2)]
      updateLight_reflected [OF assms(1,2)] assms(5)
    by (intro exI [of _ L']) simp
qed

text \<open>
  C5, as stated, fails: a frame of 64 seconds takes the light from \<open>x = 7\<close>, inside the
  volume, to \<open>x = 39\<close>; its reflection at the face \<open>x = 7\<close> is \<open>x = -25\<close>, outside the
  volume. No operation of this run rounds.
\<close>

theorem UpdateLights_leaves_volume:
  "inVolume 7 (Location (m_Lights lights1 ! 0))
   \<and> UpdateLights 7 (Finite 64) lights1 =
       Inr (lights1\<lparr>m_Lights := [\<lparr>Location = \<lparr>x32 = Finite (- 25), y32 = Finite 0, z32 = Finite 0\<rparr>,
                                   Size = Finite 1,
                                   Color = \<lparr>x32 = Finite 1, y32 = Finite 1, z32 = Finite 1\<rparr>\<rparr>],
                     m_LightMoveDirs := [\<lparr>x32 = Finite (- (1 / 2)), y32 = Finite 0, z32 = Finite 0\<rparr>]\<rparr>)
   \<and> \<not> inVolume 7 \<lparr>x32 = Finite (- 25), y32 = Finite 0, z32 = Finite 0\<rparr>"
  by (simp add: UpdateLights_def UpdateLights_from.simps lights1_def updateLight_def
      ClampCoordinate_def Let_def inVolume_def withinBound_def float_of_int_def fsub_def
      round32_values)

theorem UpdateLights_reach_witness:
  "(0::int) \<le> 7 \<and> (7::int) \<le> 2 ^ 24
   \<and> nat (m_LightsCount lights1) \<le> length (m_Lights lights1)
   \<and> nat (m_LightsCount lights1) \<le> length (m_LightMoveDirs lights1)
   \<and> nat (m_LightsCount lights1) = 1
   \<and> binary32_3 (m_LightMoveDirs lights1 ! 0)
   \<and> movedLocation (Finite 2) (m_Lights lights1 ! 0) (m_LightMoveDirs lights1 ! 0)
       = \<lparr>x32 = Finite 8, y32 = Finite 0, z32 = Finite 0\<rparr>
   \<and> withinReach 7 \<lparr>x32 = Finite 8, y32 = Finite 0, z32 = Finite 0\<rparr>
   \<and> crossed 7 (Finite 8) \<and> \<not> crossed 7 (Finite 0)
   \<and> (\<exists>L'. UpdateLights 7 (Finite 2) lights1 = Inr L'
          \<and> inVolume 7 (Location (m_Lights L' ! 0))
          \<and> m_LightMoveDirs L' ! 0 = \<lparr>x32 = Finite (- (1 / 2)), y32 = Finite 0, z32 = Finite 0\<rparr>
          \<and> Location (m_Lights L' ! 0) = \<lparr>x32 = Finite 6, y32 = Finite 0, z32 = Finite 0\<rparr>)"
proof -
  have p: "(0::int) \<le> 7" "(7::int) \<le> 2 ^ 24"
    "nat (m_LightsCount lights1) \<le> length (m_Lights lights1)"
    "nat (m_LightsCount lights1) \<le> length (m_LightMoveDirs lights1)"
    by (simp_all add: lights1_def)
  have n: "nat (m_LightsCount lights1) = 1" by (simp add: lights1_def)
  have b: "binary32_3 (m_LightMoveDirs lights1 ! 0)"
    by (simp add: lights1_def binary32_3_def binary32_def representable_def round32_values)
  have m: "movedLocation (Finite 2) (m_Lights lights1 ! 0) (m_LightMoveDirs lights1 ! 0)
             = \<lparr>x32 = Finite 8, y32 = Finite 0, z32 = Finite 0\<rparr>"
    by (simp add: lights1_def movedLocation_def round32_values)
  have w: "withinReach 7 \<lparr>x32 = Finite 8, y32 = Finite 0, z32 = Finite 0\<rparr>"
    by (simp add: withinReach_def withinBound_def)
  have c: "crossed 7 (Finite 8)" "\<not> crossed 7 (Finite 0)"
    by (simp_all add: crossed_def)
  have d: "m_LightMoveDirs lights1 ! 0 = \<lparr>x32 = Finite (1 / 2), y32 = Finite 0, z32 = Finite 0\<rparr>"
    by (simp add: lights1_def)
  have h: "\<forall>i < nat (m_LightsCount lights1). binary32_3 (m_LightMoveDirs lights1 ! i)"
    using b unfolding n by simp
  have z: "(0::nat) < nat (m_LightsCount lights1)" unfolding n by simp
  from UpdateLights_reach [OF p h, of "Finite 2"] z obtain L' where
    r: "UpdateLights 7 (Finite 2) lights1 = Inr L'"
    and a: "withinReach 7 (movedLocation (Finite 2) (m_Lights lights1 ! 0) (m_LightMoveDirs lights1 ! 0))
              \<longrightarrow> inVolume 7 (Location (m_Lights L' ! 0))"
    and e: "m_LightMoveDirs L' ! 0 =
       \<lparr>x32 = (if crossed 7 (x32 (movedLocation (Finite 2) (m_Lights lights1 ! 0) (m_LightMoveDirs lights1 ! 0)))
               then fneg (x32 (m_LightMoveDirs lights1 ! 0)) else x32 (m_LightMoveDirs lights1 ! 0)),
        y32 = (if crossed 7 (y32 (movedLocation (Finite 2) (m_Lights lights1 ! 0) (m_LightMoveDirs lights1 ! 0)))
               then fneg (y32 (m_LightMoveDirs lights1 ! 0)) else y32 (m_LightMoveDirs lights1 ! 0)),
        z32 = (if crossed 7 (z32 (movedLocation (Finite 2) (m_Lights lights1 ! 0) (m_LightMoveDirs lights1 ! 0)))
               then fneg (z32 (m_LightMoveDirs lights1 ! 0)) else z32 (m_LightMoveDirs lights1 ! 0))\<rparr>"
    and k: "m_Lights L' ! 0 =
              (m_Lights lights1 ! 0)
                \<lparr>Location :=
                   \<lparr>x32 = reflected 7 (x32 (movedLocation (Finite 2) (m_Lights lights1 ! 0) (m_LightMoveDirs lights1 ! 0))),
                    y32 = reflected 7 (y32 (movedLocation (Finite 2) (m_Lights lights1 ! 0) (m_LightMoveDirs lights1 ! 0))),
                    z32 = reflected 7 (z32 (movedLocation (Finite 2) (m_Lights lights1 ! 0) (m_LightMoveDirs lights1 ! 0)))\<rparr>\<rparr>"
    by blast
  have i: "inVolume 7 (Location (m_Lights L' ! 0))"
    using a w unfolding m by blast
  have e': "m_LightMoveDirs L' ! 0 = \<lparr>x32 = Finite (- (1 / 2)), y32 = Finite 0, z32 = Finite 0\<rparr>"
    using e [unfolded m] c unfolding d by simp
  have rv: "reflected 7 (Finite 8) = Finite 6" "reflected 7 (Finite 0) = Finite 0"
    by (simp_all add: reflected_def fsub_def round32_values)
  have k': "Location (m_Lights L' ! 0) = \<lparr>x32 = Finite 6, y32 = Finite 0, z32 = Finite 0\<rparr>"
    using k [unfolded m] by (simp add: rv)
  show ?thesis
    using p n b m w c r i e' k' by blast
qed

end
